theory Spec2Isabelle
  imports Main
begin

section \<open>Python values shared by the models\<close>

text \<open>
  Exceptions of the Python source are values of the type \<open>error\<close>; a function that can
  raise returns \<open>error + 'a\<close>, with \<open>Inl\<close> for the raised exception. The string is the
  exception's message.
\<close>

datatype error =
    ValueError string
  | RuntimeError string
  | TypeError string
  | AttributeError string
  | KeyError string
  | IndexError string
  | OSError string

text \<open>
  \<^verbatim>\<open>xs[lo:hi]\<close> for integer bounds: a negative bound counts from the end, and every bound
  is clamped to \<open>[0, len(xs)]\<close>; an empty range gives the empty list.
\<close>

definition clamp_index :: "nat \<Rightarrow> int \<Rightarrow> nat" where
  "clamp_index n i = (if i < 0 then nat (max 0 (int n + i)) else min n (nat i))"

definition py_slice :: "'a list \<Rightarrow> int \<Rightarrow> int \<Rightarrow> 'a list" where
  "py_slice xs lo hi =
     (let a = clamp_index (length xs) lo; b = clamp_index (length xs) hi
      in take (b - a) (drop a xs))"

text \<open>\<^verbatim>\<open>xs.index(t)\<close>: the position of the first element equal to \<open>t\<close>, or ValueError.\<close>

fun list_index :: "'a list \<Rightarrow> 'a \<Rightarrow> error + nat" where
  "list_index [] t = Inl (ValueError ''x is not in list'')"
| "list_index (x # xs) t =
     (if x = t then Inr 0
      else (case list_index xs t of Inl e \<Rightarrow> Inl e | Inr i \<Rightarrow> Inr (Suc i)))"

section \<open>\<^verbatim>\<open>cotk/_utils/utils.py\<close>\<close>

text \<open>
  \<^verbatim>\<open>
  def trim_before_target(lists, target):
      try:
          lists = lists[:lists.index(target)]
      except ValueError:
          pass
      return lists
  \<close>
  The argument \<open>lists\<close> is written \<open>lists'\<close>. Only ValueError is caught, and
  \<^verbatim>\<open>index\<close> raises nothing else.
\<close>

definition trim_before_target :: "'a list \<Rightarrow> 'a \<Rightarrow> 'a list" where
  "trim_before_target lists' target =
     (case list_index lists' target of
        Inr i \<Rightarrow> py_slice lists' 0 (int i)
      | Inl e \<Rightarrow> lists')"

text \<open>
  \<^verbatim>\<open>
  def chain_sessions(sessions):
      chained_sessions = list(chain(*sessions))
      session_lengths = [len(session) for session in sessions]
      return chained_sessions, session_lengths
  \<close>
\<close>

definition chain_sessions :: "'a list list \<Rightarrow> 'a list \<times> int list" where
  "chain_sessions sessions =
     (let chained_sessions = concat sessions;
          session_lengths = map (\<lambda>session. int (length session)) sessions
      in (chained_sessions, session_lengths))"

text \<open>
  \<^verbatim>\<open>
  def restore_sessions(chained_sessions, session_lengths):
      sessions = []
      last = 0
      for session_length in session_lengths:
          sessions.append(chained_sessions[last: last + session_length])
          last += session_length
      return sessions
  \<close>
  The loop is \<open>restore_loop\<close>, with the two loop variables \<open>sessions\<close> and \<open>last\<close>
  as accumulators (\<open>last\<close> is written \<open>last'\<close>).
\<close>

fun restore_loop :: "'a list \<Rightarrow> int list \<Rightarrow> 'a list list \<Rightarrow> int \<Rightarrow> 'a list list" where
  "restore_loop chained_sessions [] sessions last' = sessions"
| "restore_loop chained_sessions (session_length # rest) sessions last' =
     restore_loop chained_sessions rest
       (sessions @ [py_slice chained_sessions last' (last' + session_length)])
       (last' + session_length)"

definition restore_sessions :: "'a list \<Rightarrow> int list \<Rightarrow> 'a list list" where
  "restore_sessions chained_sessions session_lengths =
     restore_loop chained_sessions session_lengths [] 0"

text \<open>
  \<^verbatim>\<open>
  def replace_unk(sentences, unk_token, target_token=-1):
      return [[target_token if token == unk_token else token for token in sentence]
              for sentence in sentences]
  \<close>
  \<open>replace_unk_default\<close> is the call without the third argument, on integer tokens.
\<close>

definition replace_unk :: "'a list list \<Rightarrow> 'a \<Rightarrow> 'a \<Rightarrow> 'a list list" where
  "replace_unk sentences unk_token target_token =
     map (\<lambda>sentence. map (\<lambda>token. if token = unk_token then target_token else token) sentence)
       sentences"

definition replace_unk_default :: "int list list \<Rightarrow> int \<Rightarrow> int list list" where
  "replace_unk_default sentences unk_token = replace_unk sentences unk_token (- 1)"

section \<open>\<^verbatim>\<open>cotk/_utils/metaclass.py\<close>: dynamic class loading\<close>

text \<open>
  \<^verbatim>\<open>str.lower()\<close> on the ASCII letters; every other character is left as it is (class
  names are taken to be ASCII identifiers).
\<close>

definition lower_char :: "char \<Rightarrow> char" where
  "lower_char c =
     (case map_of (zip ''ABCDEFGHIJKLMNOPQRSTUVWXYZ'' ''abcdefghijklmnopqrstuvwxyz'') c of
        Some l \<Rightarrow> l
      | None \<Rightarrow> c)"

definition lower :: "string \<Rightarrow> string" where
  "lower s = map lower_char s"

text \<open>
  A class of the \<^verbatim>\<open>LoadClassInterface\<close> hierarchy, as far as \<^verbatim>\<open>load_class\<close> looks at
  it: its identity (\<^verbatim>\<open>id(cls)\<close>), its \<^verbatim>\<open>__name__\<close>, what \<^verbatim>\<open>inspect.getfile\<close> gives
  for it (the path of its module, or the exception \<^verbatim>\<open>inspect.getfile\<close> raises for a
  class without a source file: a TypeError, or an OSError for a class of \<^verbatim>\<open>__main__\<close>),
  and the list \<^verbatim>\<open>cls.__subclasses__()\<close> of its direct
  subclasses. A class with several bases in the hierarchy is listed under each of them,
  as \<^verbatim>\<open>__subclasses__\<close> does.
\<close>

datatype pyclass =
  PyClass (ident: nat) (name: string) (getfile: "error + string") (subclasses: "pyclass list")

text \<open>
  \<^verbatim>\<open>
  @classmethod
  def get_all_subclasses(cls):
      for subclass in cls.__subclasses__():
          yield from subclass.get_all_subclasses()
          yield subclass
  \<close>
  The generator is the list of what it yields, in order.
\<close>

fun get_all_subclasses :: "pyclass \<Rightarrow> pyclass list" where
  "get_all_subclasses (PyClass i n f subs) =
     concat (map (\<lambda>subclass. get_all_subclasses subclass @ [subclass]) subs)"

text \<open>
  \<^verbatim>\<open>
  @classmethod
  def load_class(cls, class_name):
      result = None
      for subclass in cls.get_all_subclasses():
          if subclass.__name__.lower() == class_name.lower():
              if result is None:
                  result = subclass
              else:
                  raise RuntimeError('There are two classes with the name "{}" located at "{}" and "{}". \
                      You have to remove one of them to make "load_class" work normally.'.format(\
                      class_name, inspect.getfile(result), inspect.getfile(subclass)))
      return result
  \<close>
  The message keeps the six tab characters that follow the line continuation inside the
  string literal. \<open>two_classes_error\<close> is the exception that the \<^verbatim>\<open>raise\<close> statement
  ends with: the arguments of \<^verbatim>\<open>format\<close> are evaluated from left to right, so an
  exception of \<^verbatim>\<open>inspect.getfile\<close> comes first. \<open>load_class_loop\<close> is the \<^verbatim>\<open>for\<close>
  loop, with the loop variable \<open>result\<close> as its accumulator.
\<close>

definition two_classes_message :: "string \<Rightarrow> string \<Rightarrow> string \<Rightarrow> string" where
  \<open>two_classes_message class_name file1 file2 =
     ''There are two classes with the name "'' @ class_name @ ''" located at "'' @ file1
     @ ''" and "'' @ file2 @ ''". '' @ replicate 6 (CHR 0x09)
     @ ''You have to remove one of them to make "load_class" work normally.''\<close>

definition two_classes_error :: "string \<Rightarrow> pyclass \<Rightarrow> pyclass \<Rightarrow> error" where
  "two_classes_error class_name result subclass =
     (case getfile result of
        Inl e \<Rightarrow> e
      | Inr file1 \<Rightarrow>
          (case getfile subclass of
             Inl e \<Rightarrow> e
           | Inr file2 \<Rightarrow> RuntimeError (two_classes_message class_name file1 file2)))"

fun load_class_loop :: "string \<Rightarrow> pyclass list \<Rightarrow> pyclass option \<Rightarrow> error + pyclass option" where
  "load_class_loop class_name [] result = Inr result"
| "load_class_loop class_name (subclass # rest) result =
     (if lower (name subclass) = lower class_name then
        (case result of
           None \<Rightarrow> load_class_loop class_name rest (Some subclass)
         | Some r \<Rightarrow> Inl (two_classes_error class_name r subclass))
      else load_class_loop class_name rest result)"

definition load_class :: "pyclass \<Rightarrow> string \<Rightarrow> error + pyclass option" where
  "load_class cls class_name = load_class_loop class_name (get_all_subclasses cls) None"

text \<open>
  A small hierarchy for the concrete checks: a dataloader root with the classes of
  \<^verbatim>\<open>single_turn_dialog.py\<close> below it, and a second class named like
  \<^verbatim>\<open>OpenSubtitles\<close> up to case in another file.
\<close>

definition example_hierarchy :: pyclass where
  "example_hierarchy =
     PyClass 0 ''Dataloader'' (Inr ''dataloader.py'')
       [PyClass 1 ''LanguageProcessing'' (Inr ''dataloader.py'')
          [PyClass 2 ''SingleTurnDialog'' (Inr ''single_turn_dialog.py'')
             [PyClass 3 ''OpenSubtitles'' (Inr ''single_turn_dialog.py'') []],
           PyClass 4 ''opensubtitles'' (Inr ''mine.py'') []]]"

text \<open>
  A hierarchy whose classes have no source file: two plug-in classes made in a module
  object that was built at run time and has no \<^verbatim>\<open>__file__\<close>. For such a class
  \<^verbatim>\<open>inspect.getfile\<close> raises the TypeError
  \<^verbatim>\<open><class 'plugin.Dm'> is a built-in class\<close>.
\<close>

definition no_source_file :: "string \<Rightarrow> error" where
  "no_source_file qualified_name =
     TypeError (''<class '' @ [CHR 0x27] @ qualified_name @ [CHR 0x27]
       @ ''> is a built-in class'')"

definition plugin_hierarchy :: pyclass where
  "plugin_hierarchy =
     PyClass 0 ''Root'' (Inr ''root.py'')
       [PyClass 1 ''Dm'' (Inl (no_source_file ''plugin.Dm'')) [],
        PyClass 2 ''DM'' (Inl (no_source_file ''plugin.DM'')) []]"

section \<open>\<^verbatim>\<open>cotk/dataloader/single_turn_dialog.py\<close>: batches\<close>

text \<open>
  Modelled from the spec: the data and the arrays of \<^verbatim>\<open>LanguageProcessing.get_batch\<close>,
  which is not among the sources; \<^verbatim>\<open>SingleTurnDialog.get_batch\<close> only calls
  \<^verbatim>\<open>super().get_batch(set_name, indexes)\<close>. What the method returns is described by the
  docstrings \<^verbatim>\<open>_GET_BATCH_MORE_DOC\<close> and \<^verbatim>\<open>_GET_BATCH_EXAMPLE\<close>, and the definitions
  of this section follow these two.

  A dataloader holds, for every set name, the dialogs of the set: pairs of a post and a
  response, each a sentence of word ids. Ids below \<open>frequent_vocab_size\<close> are the valid
  words (the example's \<^verbatim>\<open>vocab_size\<close>). \<open>max_of_lengths\<close> is \<^verbatim>\<open>max(sent_length)\<close>,
  \<open>pad_batch\<close> pads every sentence on the right to that length, and
  \<open>valid_words_only\<close> puts \<^verbatim>\<open>unk_id\<close> in the place of every word that is not valid.
\<close>

record dataloader =
  frequent_vocab_size :: nat
  pad_id :: nat
  unk_id :: nat
  data :: "string \<rightharpoonup> (nat list \<times> nat list) list"

record batch =
  post_length :: "nat list"
  post :: "nat list list"
  post_allvocabs :: "nat list list"
  resp_length :: "nat list"
  resp :: "nat list list"
  resp_allvocabs :: "nat list list"

definition max_of_lengths :: "nat list \<Rightarrow> nat" where
  "max_of_lengths lengths = fold max lengths 0"

definition pad_sentence :: "nat \<Rightarrow> nat \<Rightarrow> nat list \<Rightarrow> nat list" where
  "pad_sentence pad n sentence = sentence @ replicate (n - length sentence) pad"

definition pad_batch :: "nat \<Rightarrow> nat list list \<Rightarrow> nat list list" where
  "pad_batch pad sentences =
     map (pad_sentence pad (max_of_lengths (map length sentences))) sentences"

definition valid_words_only :: "dataloader \<Rightarrow> nat list list \<Rightarrow> nat list list" where
  "valid_words_only dl rows =
     map (\<lambda>row. map (\<lambda>w. if w < frequent_vocab_size dl then w else unk_id dl) row) rows"

text \<open>
  Modelled from the spec: \<^verbatim>\<open>LanguageProcessing.get_batch\<close>, which is not among the
  sources. By the docstring \<^verbatim>\<open>_GET_BATCH_MORE_DOC\<close>: \<^verbatim>\<open>post_length\<close> is the 1-d array
  of the lengths of the posts of the batch; \<^verbatim>\<open>post_allvocabs\<close> is the 2-d array of the
  posts, padded to \<^verbatim>\<open>max(sent_length)\<close>, with valid and invalid words; \<^verbatim>\<open>post\<close> is the
  same array with \<^verbatim>\<open>unk_id\<close> in the place of every word that is not valid; and the same
  for the responses. The padding is on the right with the padding id, as in
  \<^verbatim>\<open>_GET_BATCH_EXAMPLE\<close>. A set name that the dataloader does not have is a KeyError and
  an index beyond the set an IndexError.
\<close>

definition get_batch :: "dataloader \<Rightarrow> string \<Rightarrow> nat list \<Rightarrow> error + batch" where
  "get_batch dl set_name indexes =
     (case data dl set_name of
        None \<Rightarrow> Inl (KeyError set_name)
      | Some dialogs \<Rightarrow>
          if list_all (\<lambda>i. i < length dialogs) indexes then
            (let posts = map (\<lambda>i. fst (dialogs ! i)) indexes;
                 resps = map (\<lambda>i. snd (dialogs ! i)) indexes;
                 post_rows = pad_batch (pad_id dl) posts;
                 resp_rows = pad_batch (pad_id dl) resps
             in Inr \<lparr>post_length = map length posts,
                     post = valid_words_only dl post_rows,
                     post_allvocabs = post_rows,
                     resp_length = map length resps,
                     resp = valid_words_only dl resp_rows,
                     resp_allvocabs = resp_rows\<rparr>)
          else Inl (IndexError ''list index out of range''))"

text \<open>
  The dataloader of \<^verbatim>\<open>_GET_BATCH_EXAMPLE\<close>: nine valid words among eleven, and two
  dialogs in the training set.
\<close>

definition example_dataloader :: dataloader where
  "example_dataloader =
     \<lparr>frequent_vocab_size = 9, pad_id = 0, unk_id = 1,
      data = [''train'' \<mapsto> [([2, 5, 6, 10, 3], [2, 8, 9, 10, 3]), ([2, 7, 3], [2, 7, 3])]]\<rparr>"

section \<open>\<^verbatim>\<open>cotk/dataloader/single_turn_dialog.py\<close>: construction\<close>

text \<open>
  The \<^verbatim>\<open>tokenizer\<close> argument of \<^verbatim>\<open>SingleTurnDialog.__init__\<close>: \<^verbatim>\<open>None\<close>, a name such as
  \<^verbatim>\<open>"nltk"\<close> or \<^verbatim>\<open>"space"\<close>, an instance of \<^verbatim>\<open>PretrainedTokenizer\<close> (with its attribute
  \<^verbatim>\<open>tokenizer\<close>), or any other object. \<open>is_PretrainedTokenizer\<close> is
  \<^verbatim>\<open>isinstance(tokenizer, PretrainedTokenizer)\<close>.
\<close>

datatype tokenizer =
    TokenizerNone
  | TokenizerName string
  | PretrainedTokenizer (wrapped: string)
  | OtherTokenizer string

fun is_PretrainedTokenizer :: "tokenizer \<Rightarrow> bool" where
  "is_PretrainedTokenizer (PretrainedTokenizer t) = True"
| "is_PretrainedTokenizer _ = False"

text \<open>
  The keyword arguments that the two \<^verbatim>\<open>with\<close> statements hand to
  \<^verbatim>\<open>FieldContext.set_parameters\<close> and \<^verbatim>\<open>VocabContext.set_parameters\<close> while
  \<^verbatim>\<open>LanguageProcessing.__init__\<close> runs.
\<close>

record context_parameters =
  cp_tokenizer :: tokenizer
  cp_vocab :: "string option"
  cp_max_sent_length :: "int option"
  cp_convert_to_lower_letter :: "bool option"
  cp_min_frequent_vocab_times :: "int option"
  cp_min_rare_vocab_times :: "int option"

text \<open>
  The object under construction: the attribute \<^verbatim>\<open>_pretrained\<close> (\<open>None\<close> while it is not
  set, \<open>Some\<close> of the argument afterwards) and the state \<open>'s\<close> that
  \<^verbatim>\<open>LanguageProcessing\<close> keeps (fields, vocabulary, data).
\<close>

record 's single_turn_dialog =
  pretrained_attr :: "string option option"
  language_processing :: 's

text \<open>
  \<^verbatim>\<open>LanguageProcessing.__init__\<close>, \<^verbatim>\<open>set_default_field\<close> and the constructor of
  \<^verbatim>\<open>PretrainedVocab\<close> are not among the sources; they are parameters of the model. The
  first two take the state of \<^verbatim>\<open>LanguageProcessing\<close> and return the new one, or raise and
  leave one behind.
\<close>

record 's environment =
  language_processing_init ::
    "string \<Rightarrow> (string \<times> string) list \<Rightarrow> context_parameters \<Rightarrow> 's \<Rightarrow> (error \<times> 's) + 's"
  set_default_field :: "string \<Rightarrow> string \<Rightarrow> 's \<Rightarrow> (error \<times> 's) + 's"
  pretrained_vocab :: "string \<Rightarrow> error + string"

text \<open>
  \<^verbatim>\<open>
  def __init__(self, file_id, *, tokenizer=None, max_sent_length=None,
          convert_to_lower_letter=None, min_frequent_vocab_times=None,
          min_rare_vocab_times=None, pretrained=None):
      self._pretrained = pretrained
      if pretrained is None:
          with FieldContext.set_parameters(tokenizer=tokenizer,
              max_sent_length=max_sent_length,
              convert_to_lower_letter=convert_to_lower_letter):
              with VocabContext.set_parameters(
                      min_frequent_vocab_times=min_frequent_vocab_times,
                      min_rare_vocab_times=min_rare_vocab_times):
                  super().__init__(file_id, OrderedDict([("post", "SentenceDefault"),
                                                         ('resp', 'SentenceDefault')]))
          self.set_default_field("train", "post")
      elif pretrained == "gpt2":
          if not isinstance(tokenizer, PretrainedTokenizer):
              raise ValueError("tokenize should be loaded first if you want a gpt2 dataloader")
          vocab = PretrainedVocab(tokenizer.tokenizer)
          with FieldContext.set_parameters(tokenizer=tokenizer, vocab=vocab,
                  max_sent_length=max_sent_length,
                  convert_to_lower_letter=convert_to_lower_letter):
              super().__init__(file_id, OrderedDict([("post", "SentenceGPT2"),
                                                     ("resp", "SentenceGPT2")]))
          self.set_default_field("train", "post")
      else:
          raise ValueError("No pretrained name %s" % pretrained)
  \<close>
  The result is \<open>Inr\<close> of the constructed object, or \<open>Inl\<close> of the raised exception
  together with the object as the exception leaves it. \<open>pretrained\<close> is \<^verbatim>\<open>None\<close> or a
  string. The model is of the body of \<^verbatim>\<open>__init__\<close>; the decorator
  \<^verbatim>\<open>hooks.hook_dataloader\<close> around it is not among the sources.
\<close>

definition finish_init ::
  "'s environment \<Rightarrow> 's single_turn_dialog \<Rightarrow> string \<Rightarrow> (string \<times> string) list
     \<Rightarrow> context_parameters \<Rightarrow> (error \<times> 's single_turn_dialog) + 's single_turn_dialog" where
  "finish_init env self file_id field_types params =
     (case language_processing_init env file_id field_types params (language_processing self) of
        Inl (e, s) \<Rightarrow> Inl (e, self\<lparr>language_processing := s\<rparr>)
      | Inr s \<Rightarrow>
          (case set_default_field env ''train'' ''post'' s of
             Inl (e, s') \<Rightarrow> Inl (e, self\<lparr>language_processing := s'\<rparr>)
           | Inr s' \<Rightarrow> Inr (self\<lparr>language_processing := s'\<rparr>)))"

definition SingleTurnDialog_init ::
  "'s environment \<Rightarrow> 's single_turn_dialog \<Rightarrow> string \<Rightarrow> tokenizer \<Rightarrow> int option \<Rightarrow> bool option
     \<Rightarrow> int option \<Rightarrow> int option \<Rightarrow> string option
     \<Rightarrow> (error \<times> 's single_turn_dialog) + 's single_turn_dialog" where
  "SingleTurnDialog_init env self0 file_id tokenizer max_sent_length convert_to_lower_letter
       min_frequent_vocab_times min_rare_vocab_times pretrained =
     (let self = self0\<lparr>pretrained_attr := Some pretrained\<rparr> in
      case pretrained of
        None \<Rightarrow>
          finish_init env self file_id
            [(''post'', ''SentenceDefault''), (''resp'', ''SentenceDefault'')]
            \<lparr>cp_tokenizer = tokenizer, cp_vocab = None,
             cp_max_sent_length = max_sent_length,
             cp_convert_to_lower_letter = convert_to_lower_letter,
             cp_min_frequent_vocab_times = min_frequent_vocab_times,
             cp_min_rare_vocab_times = min_rare_vocab_times\<rparr>
      | Some p \<Rightarrow>
          if p = ''gpt2'' then
            (if \<not> is_PretrainedTokenizer tokenizer then
               Inl (ValueError ''tokenize should be loaded first if you want a gpt2 dataloader'',
                    self)
             else
               (case pretrained_vocab env (wrapped tokenizer) of
                  Inl e \<Rightarrow> Inl (e, self)
                | Inr vocab \<Rightarrow>
                    finish_init env self file_id
                      [(''post'', ''SentenceGPT2''), (''resp'', ''SentenceGPT2'')]
                      \<lparr>cp_tokenizer = tokenizer, cp_vocab = Some vocab,
                       cp_max_sent_length = max_sent_length,
                       cp_convert_to_lower_letter = convert_to_lower_letter,
                       cp_min_frequent_vocab_times = None,
                       cp_min_rare_vocab_times = None\<rparr>))
          else Inl (ValueError (''No pretrained name '' @ p), self))"

text \<open>
  An environment for the concrete checks: \<^verbatim>\<open>LanguageProcessing.__init__\<close> records the
  file and the field names it is given, and nothing raises.
\<close>

definition example_environment :: "string list environment" where
  "example_environment =
     \<lparr>language_processing_init = (\<lambda>file_id field_types params s. Inr (file_id # map fst field_types)),
      set_default_field = (\<lambda>set_name field s. Inr (s @ [set_name, field])),
      pretrained_vocab = (\<lambda>t. Inr t)\<rparr>"

section \<open>Vocabulary tiers\<close>

text \<open>
  Modelled from the spec: the vocabulary that \<^verbatim>\<open>LanguageProcessing.__init__\<close> builds,
  which is not among the sources. By the docstring \<^verbatim>\<open>SingleTurnDialog.ARGUMENTS\<close>: all
  tokens that appear not less than the frequent threshold in the training set are valid
  words; all tokens, except valid words, that appear not less than the rare threshold in
  the whole dataset are invalid words; otherwise they are unknown words. The whole dataset
  is the training set and the other sets; each tier lists its tokens once.
\<close>

definition is_frequent :: "int \<Rightarrow> 'a list \<Rightarrow> 'a \<Rightarrow> bool" where
  "is_frequent min_frequent_vocab_times training_set token =
     (min_frequent_vocab_times \<le> int (count_list training_set token))"

definition is_rare :: "int \<Rightarrow> int \<Rightarrow> 'a list \<Rightarrow> 'a list \<Rightarrow> 'a \<Rightarrow> bool" where
  "is_rare min_frequent_vocab_times min_rare_vocab_times training_set other_sets token =
     (\<not> is_frequent min_frequent_vocab_times training_set token
      \<and> min_rare_vocab_times \<le> int (count_list (training_set @ other_sets) token))"

definition frequent_vocab :: "int \<Rightarrow> 'a list \<Rightarrow> 'a list \<Rightarrow> 'a list" where
  "frequent_vocab min_frequent_vocab_times training_set other_sets =
     filter (is_frequent min_frequent_vocab_times training_set)
       (remdups (training_set @ other_sets))"

definition rare_vocab :: "int \<Rightarrow> int \<Rightarrow> 'a list \<Rightarrow> 'a list \<Rightarrow> 'a list" where
  "rare_vocab min_frequent_vocab_times min_rare_vocab_times training_set other_sets =
     filter (is_rare min_frequent_vocab_times min_rare_vocab_times training_set other_sets)
       (remdups (training_set @ other_sets))"

definition unknown_vocab :: "int \<Rightarrow> int \<Rightarrow> 'a list \<Rightarrow> 'a list \<Rightarrow> 'a list" where
  "unknown_vocab min_frequent_vocab_times min_rare_vocab_times training_set other_sets =
     filter (\<lambda>token. \<not> is_frequent min_frequent_vocab_times training_set token
                \<and> \<not> is_rare min_frequent_vocab_times min_rare_vocab_times
                      training_set other_sets token)
       (remdups (training_set @ other_sets))"

section \<open>The command line configuration\<close>

text \<open>
  Modelled from the spec: \<^verbatim>\<open>cotk.scripts.config\<close> and \<^verbatim>\<open>cotk.scripts.main.dispatch\<close>,
  which are not among the sources; only their test \<^verbatim>\<open>TestScripts.test_config\<close> is. The
  configuration maps a key to its value, and is empty while no configuration file exists.
  \<^verbatim>\<open>config_load(key)\<close> gives the value of the key, or \<^verbatim>\<open>None\<close>; dispatching
  \<^verbatim>\<open>config set <key> <words...>\<close> stores the words, joined by single spaces, under the
  key; every other command (\<^verbatim>\<open>config show <key>\<close> among them) leaves the configuration
  as it is.
\<close>

type_synonym config = "string \<rightharpoonup> string"

definition empty_config :: config where
  "empty_config = Map.empty"

definition config_load :: "config \<Rightarrow> string \<Rightarrow> string option" where
  "config_load cfg key = cfg key"

fun join_words :: "string list \<Rightarrow> string" where
  "join_words [] = []"
| "join_words [w] = w"
| "join_words (w # v # ws) = w @ '' '' @ join_words (v # ws)"

fun dispatch :: "string \<Rightarrow> string list \<Rightarrow> config \<Rightarrow> config" where
  "dispatch cmd (sub # key # w # ws) cfg =
     (if cmd = ''config'' \<and> sub = ''set'' then cfg(key \<mapsto> join_words (w # ws)) else cfg)"
| "dispatch cmd args cfg = cfg"

section \<open>\<^verbatim>\<open>cotk/_utils/metaclass.py\<close>: the metaclass \<^verbatim>\<open>DocStringInheritor\<close>\<close>

subsection \<open>Python objects, class namespaces and classes\<close>

text \<open>
  The objects that a class namespace holds, as far as \<^verbatim>\<open>DocStringInheritor.__new__\<close>
  tells them apart: \<^verbatim>\<open>None\<close>, a string, a dictionary from names to docstrings (the value of
  \<^verbatim>\<open>META_DOC_FOR_ATTRIBUTES\<close>), a function, a \<^verbatim>\<open>staticmethod\<close>, a \<^verbatim>\<open>classmethod\<close> and a
  \<^verbatim>\<open>property\<close>. A docstring is \<open>None\<close> or \<open>Some\<close> string.

  The loop over the attributes assigns the \<^verbatim>\<open>__doc__\<close> of function objects, and one function
  object may be bound to several names (\<^verbatim>\<open>g = f\<close> in a class body), also of several classes
  (\<^verbatim>\<open>f = Base.f\<close>). So an object whose \<^verbatim>\<open>__doc__\<close> can be assigned is held by reference: the
  store gives the \<^verbatim>\<open>__doc__\<close> of every such object, and two names bound to one object hold
  the same reference.
    \<^item> \<open>PFunction f\<close> is the function object \<open>f\<close>.
    \<^item> \<open>PStaticMethod func\<close> is a \<^verbatim>\<open>staticmethod\<close> whose \<^verbatim>\<open>__func__\<close> is the function object
      \<open>func\<close>.
    \<^item> \<open>PClassMethod m\<close> is the \<^verbatim>\<open>classmethod\<close> object \<open>m\<close>. Its \<^verbatim>\<open>__doc__\<close> is an attribute
      of the object itself, read and assigned there and not on its function (it starts as
      the docstring of the type \<^verbatim>\<open>classmethod\<close> before Python 3.10, and as a copy of the
      docstring of the function from Python 3.10 on).
    \<^item> \<open>PProperty doc fget\<close> is a \<^verbatim>\<open>property\<close> with its \<^verbatim>\<open>__doc__\<close>, which the code does
      not assign, and the function object of its getter when it has one:
      \<^verbatim>\<open>property(fget, fset, fdel, doc)\<close> takes the docstring of \<open>fget\<close> when \<open>doc\<close> is
      \<^verbatim>\<open>None\<close> (\<open>new_property\<close>).
  Objects of other kinds (numbers, nested classes) are left out.
\<close>

type_synonym ref = nat

type_synonym store = "ref \<Rightarrow> string option"

datatype pyval =
    PNone
  | PStr string
  | PDict "(string \<times> string) list"
  | PFunction ref
  | PStaticMethod ref
  | PClassMethod ref
  | PProperty "string option" "ref option"

definition new_property :: "store \<Rightarrow> ref option \<Rightarrow> string option \<Rightarrow> pyval" where
  "new_property heap fget doc =
     PProperty
       (case doc of
          Some d \<Rightarrow> Some d
        | None \<Rightarrow> (case fget of None \<Rightarrow> None | Some f \<Rightarrow> heap f))
       fget"

text \<open>
  A namespace (\<^verbatim>\<open>clsdict\<close>, a \<^verbatim>\<open>dict\<close>) is an association list in insertion order;
  \<open>dict_set\<close> is \<^verbatim>\<open>d[k] = v\<close>: an existing key keeps its place, a new key goes to the end.
\<close>

type_synonym namespace = "(string \<times> pyval) list"

fun dict_set :: "string \<Rightarrow> 'v \<Rightarrow> (string \<times> 'v) list \<Rightarrow> (string \<times> 'v) list" where
  "dict_set k v [] = [(k, v)]"
| "dict_set k v ((k', v') # d) = (if k' = k then (k, v) # d else (k', v') # dict_set k v d)"

text \<open>
  A class that exists already: its \<^verbatim>\<open>__name__\<close>, its own namespace, and the classes that
  follow it in its method resolution order (so \<^verbatim>\<open>cls.mro()\<close> is the class and then
  these). \<open>class_getattr\<close> and \<open>class_hasattr\<close> are \<^verbatim>\<open>getattr(cls, a)\<close> and
  \<^verbatim>\<open>hasattr(cls, a)\<close>, looked up in the namespaces of the classes of the method resolution
  order; the attributes that only the metaclass \<^verbatim>\<open>type\<close> gives a class are not modelled.
\<close>

datatype pytype = PyType (type_name: string) (namespace_of: namespace) (supers: "pytype list")

definition mro :: "pytype \<Rightarrow> pytype list" where
  "mro c = c # supers c"

fun lookup_mro :: "pytype list \<Rightarrow> string \<Rightarrow> pyval option" where
  "lookup_mro [] a = None"
| "lookup_mro (c # cs) a =
     (case map_of (namespace_of c) a of Some v \<Rightarrow> Some v | None \<Rightarrow> lookup_mro cs a)"

definition class_getattr :: "pytype \<Rightarrow> string \<Rightarrow> error + pyval" where
  "class_getattr c a =
     (case lookup_mro (mro c) a of
        None \<Rightarrow> Inl (AttributeError (''type object '' @ [CHR 0x27] @ type_name c @ [CHR 0x27]
                  @ '' has no attribute '' @ [CHR 0x27] @ a @ [CHR 0x27]))
      | Some v \<Rightarrow> Inr v)"

definition class_hasattr :: "pytype \<Rightarrow> string \<Rightarrow> bool" where
  "class_hasattr c a = (lookup_mro (mro c) a \<noteq> None)"

text \<open>The generator \<^verbatim>\<open>(mro_cls for base in bases for mro_cls in base.mro())\<close>.\<close>

definition bases_mro :: "pytype list \<Rightarrow> pytype list" where
  "bases_mro bases = concat (map mro bases)"

text \<open>The truth value of an object, as \<^verbatim>\<open>if\<close> and \<^verbatim>\<open>not\<close> take it.\<close>

fun truthy :: "pyval \<Rightarrow> bool" where
  "truthy PNone = False"
| "truthy (PStr s) = (s \<noteq> [])"
| "truthy (PDict d) = (d \<noteq> [])"
| "truthy (PFunction f) = True"
| "truthy (PStaticMethod func) = True"
| "truthy (PClassMethod m) = True"
| "truthy (PProperty d fget) = True"

subsection \<open>The regular expressions and \<^verbatim>\<open>re.sub\<close>\<close>

text \<open>
  The four patterns of \<^verbatim>\<open>__new__\<close> are
  \<^verbatim>\<open>\{\b((\w*\.)?[A-Z][A-Z_]*?)\}\<close> (and the same with one more group) and
  \<^verbatim>\<open>\{\b((\w*\.)?[A-Z_]+?)\}\<close> (and the same with one more group). Group 1 is the text
  between the braces: an optional prefix of word characters and a dot, then a name of
  capitals and underscores, which has to start with a capital in the first pattern. The
  word boundary after the brace asks for a word character first, so the prefix is not
  empty when the dot is there. Docstrings are ASCII texts.

  \<open>match_placeholder leading_capital rest\<close> matches the pattern against the text
  \<open>rest\<close> that follows an opening brace, and gives group 1 and the text after the
  closing brace.
\<close>

definition is_capital :: "char \<Rightarrow> bool" where
  "is_capital c = (c \<in> set ''ABCDEFGHIJKLMNOPQRSTUVWXYZ'')"

definition is_name_char :: "char \<Rightarrow> bool" where
  "is_name_char c = (is_capital c \<or> c = CHR ''_'')"

definition is_word_char :: "char \<Rightarrow> bool" where
  "is_word_char c =
     (is_name_char c \<or> c \<in> set ''abcdefghijklmnopqrstuvwxyz'' \<or> c \<in> set ''0123456789'')"

definition match_name :: "bool \<Rightarrow> string \<Rightarrow> (string \<times> string) option" where
  "match_name leading_capital s =
     (let n = takeWhile is_name_char s; r = dropWhile is_name_char s
      in case n of
           [] \<Rightarrow> None
         | c # cs \<Rightarrow>
             (case r of
                [] \<Rightarrow> None
              | b # after \<Rightarrow>
                  if b = CHR ''}'' \<and> (if leading_capital then is_capital c else True)
                  then Some (n, after) else None))"

definition match_placeholder :: "bool \<Rightarrow> string \<Rightarrow> (string \<times> string) option" where
  "match_placeholder leading_capital rest =
     (let w = takeWhile is_word_char rest; r = dropWhile is_word_char rest
      in case (case r of
                 [] \<Rightarrow> None
               | d # after_dot \<Rightarrow>
                   if d = CHR ''.'' \<and> w \<noteq> [] then match_name leading_capital after_dot
                   else None) of
           Some (n, after) \<Rightarrow> Some (w @ ''.'' @ n, after)
         | None \<Rightarrow> match_name leading_capital rest)"

lemma match_name_shorter: "match_name lc s = Some (n, after) \<Longrightarrow> length after < length s"
proof -
  assume m: "match_name lc s = Some (n, after)"
  then obtain b where "dropWhile is_name_char s = b # after"
    by (auto simp: match_name_def Let_def split: list.splits if_splits)
  moreover have "length (dropWhile is_name_char s) \<le> length s" by (rule length_dropWhile_le)
  ultimately show ?thesis by simp
qed

lemma match_placeholder_shorter:
  "match_placeholder lc s = Some (g, after) \<Longrightarrow> length after < length s"
proof -
  assume m: "match_placeholder lc s = Some (g, after)"
  have dw: "length (dropWhile is_word_char s) \<le> length s" by (rule length_dropWhile_le)
  show ?thesis
  proof (cases "dropWhile is_word_char s")
    case Nil
    with m show ?thesis by (auto simp: match_placeholder_def dest: match_name_shorter)
  next
    case (Cons d after_dot)
    show ?thesis
    proof (cases "d = CHR ''.'' \<and> takeWhile is_word_char s \<noteq> []")
      case False
      with m Cons show ?thesis
        by (auto simp: match_placeholder_def dest: match_name_shorter)
    next
      case True
      show ?thesis
      proof (cases "match_name lc after_dot")
        case None
        with m Cons True show ?thesis
          by (auto simp: match_placeholder_def dest: match_name_shorter)
      next
        case (Some p)
        with m Cons True have "match_name lc after_dot = Some (fst p, after)"
          by (cases p) (auto simp: match_placeholder_def)
        then have "length after < length after_dot" by (rule match_name_shorter)
        with dw Cons show ?thesis by simp
      qed
    qed
  qed
qed

text \<open>
  \<^verbatim>\<open>re.sub(pattern, repl, string)\<close> with a function \<open>repl\<close>, here given group 1 of the
  match: the text is scanned from the left; at a match the function is called, and an
  exception of the function ends the call; what the functions return is collected with
  the text between the matches, and joined after the scan. A returned \<^verbatim>\<open>None\<close> is left
  out, and a returned object that is not a string makes the join fail with a TypeError.
\<close>

function re_sub_items :: "bool \<Rightarrow> (string \<Rightarrow> error + pyval) \<Rightarrow> string \<Rightarrow> error + pyval list" where
  "re_sub_items lc repl [] = Inr []"
| "re_sub_items lc repl (c # cs) =
     (case (if c = CHR ''{'' then match_placeholder lc cs else None) of
        Some (g, after) \<Rightarrow>
          (case repl g of
             Inl e \<Rightarrow> Inl e
           | Inr v \<Rightarrow>
               (case re_sub_items lc repl after of
                  Inl e \<Rightarrow> Inl e
                | Inr items \<Rightarrow> Inr (if v = PNone then items else v # items)))
      | None \<Rightarrow>
          (case re_sub_items lc repl cs of
             Inl e \<Rightarrow> Inl e
           | Inr items \<Rightarrow> Inr (PStr [c] # items)))"
  by pat_completeness auto
termination
  by (relation "measure (\<lambda>(lc, repl, s). length s)")
    (auto split: if_splits dest: match_placeholder_shorter)

fun join_items :: "pyval list \<Rightarrow> error + string" where
  "join_items [] = Inr []"
| "join_items (PStr s # items) =
     (case join_items items of Inl e \<Rightarrow> Inl e | Inr t \<Rightarrow> Inr (s @ t))"
| "join_items (v # items) = Inl (TypeError ''expected str instance'')"

definition re_sub :: "bool \<Rightarrow> (string \<Rightarrow> error + pyval) \<Rightarrow> string \<Rightarrow> error + string" where
  "re_sub lc repl s =
     (case re_sub_items lc repl s of Inl e \<Rightarrow> Inl e | Inr items \<Rightarrow> join_items items)"

text \<open>
  \<^verbatim>\<open>
  while True:
      new_doc = re.sub(pattern, repl, doc)
      if doc == new_doc:
          break
      doc = new_doc
  \<close>
  The loop need not end (a constant may hold a placeholder of itself and more text), so
  the result is an option: \<open>None\<close> when the loop runs forever. \<open>step\<close> is one
  \<^verbatim>\<open>re.sub\<close> call on the docstring.
\<close>

partial_function (option) substitute :: "(string \<Rightarrow> error + string) \<Rightarrow> string \<Rightarrow> (error + string) option" where
  "substitute step doc =
     (case step doc of
        Inl e \<Rightarrow> Some (Inl e)
      | Inr new_doc \<Rightarrow> if doc = new_doc then Some (Inr doc) else substitute step new_doc)"

declare substitute.simps [code]

subsection \<open>\<^verbatim>\<open>DocStringInheritor.__new__\<close>\<close>

text \<open>
  \<^verbatim>\<open>
  def find_base(base_name):
      if name == base_name:
          return clsdict
      for mro_cls in (mro_cls for base in bases for mro_cls in base.mro()):
          if mro_cls.__name__ == base_name:
              return mro_cls
      raise ValueError("No bases named %s" % base_name)
  \<close>
  The result is the namespace under construction or a class.
\<close>

datatype base_ref = ClsDict namespace | BaseClass pytype

definition find_base :: "string \<Rightarrow> pytype list \<Rightarrow> namespace \<Rightarrow> string \<Rightarrow> error + base_ref" where
  "find_base name' bases clsdict base_name =
     (if name' = base_name then Inr (ClsDict clsdict)
      else (case find (\<lambda>mro_cls. type_name mro_cls = base_name) (bases_mro bases) of
              Some mro_cls \<Rightarrow> Inr (BaseClass mro_cls)
            | None \<Rightarrow> Inl (ValueError (''No bases named '' @ base_name))))"

text \<open>\<^verbatim>\<open>s.split(".")\<close>: the parts of \<open>s\<close> between the dots.\<close>

fun split_dot :: "string \<Rightarrow> string list" where
  "split_dot [] = [[]]"
| "split_dot (c # cs) =
     (if c = CHR ''.'' then [] # split_dot cs
      else (case split_dot cs of [] \<Rightarrow> [[c]] | p # ps \<Rightarrow> (c # p) # ps))"

text \<open>
  \<^verbatim>\<open>
  def find_attr(attr_name):
      if "." in attr_name:
          base_name, attr_name = attr_name.split(".")
          base = find_base(base_name)
          if isinstance(base, dict):
              return base[attr_name]
          else:
              return getattr(base, attr_name)
      else:
          if attr_name in clsdict:
              return clsdict[attr_name]
          for mro_cls in (mro_cls for base in bases for mro_cls in base.mro()):
              if hasattr(mro_cls, attr_name):
                  return getattr(mro_cls, attr_name)
          raise KeyError("No such attr.")
  \<close>
\<close>

definition find_attr :: "string \<Rightarrow> pytype list \<Rightarrow> namespace \<Rightarrow> string \<Rightarrow> error + pyval" where
  "find_attr name' bases clsdict attr_name =
     (if CHR ''.'' \<in> set attr_name then
        (case split_dot attr_name of
           [base_name, attr_name'] \<Rightarrow>
             (case find_base name' bases clsdict base_name of
                Inl e \<Rightarrow> Inl e
              | Inr (ClsDict base) \<Rightarrow>
                  (case map_of base attr_name' of
                     Some v \<Rightarrow> Inr v
                   | None \<Rightarrow> Inl (KeyError attr_name'))
              | Inr (BaseClass base) \<Rightarrow> class_getattr base attr_name')
         | _ \<Rightarrow> Inl (ValueError ''too many values to unpack (expected 2)''))
      else
        (case map_of clsdict attr_name of
           Some v \<Rightarrow> Inr v
         | None \<Rightarrow>
             (case find (\<lambda>mro_cls. class_hasattr mro_cls attr_name) (bases_mro bases) of
                Some mro_cls \<Rightarrow> class_getattr mro_cls attr_name
              | None \<Rightarrow> Inl (KeyError ''No such attr.''))))"

text \<open>
  \<^verbatim>\<open>
  def replace_for_clsdict(matched):
      attr_name = matched.group(1)
      try:
          return find_attr(attr_name)
      except ValueError as err:
          if err.args[0].startswith("No bases"):
              raise ValueError("Can't find %s when interpreting docstring of class %s, because the class doesn't have a baseclass named %s." \
                  % (attr_name, name, attr_name.split(".")[0]))
          else:
              raise
      except (AttributeError, KeyError):
          raise ValueError("Can't find %s when interpreting docstring of class %s, please check whether the CONSTANT exists." \
              % (attr_name, name))
  \<close>
  \<^verbatim>\<open>replace_for(attr)\<close> is the same function with \<^verbatim>\<open>%s.%s\<close> of \<open>name\<close> and \<open>attr\<close> in
  the place of \<^verbatim>\<open>class %s\<close> of \<open>name\<close>; \<open>replace_in\<close> is their common body, with that
  text as \<open>subject\<close>.
\<close>

definition replace_in :: "string \<Rightarrow> string \<Rightarrow> pytype list \<Rightarrow> namespace \<Rightarrow> string \<Rightarrow> error + pyval" where
  "replace_in subject name' bases clsdict attr_name =
     (case find_attr name' bases clsdict attr_name of
        Inr v \<Rightarrow> Inr v
      | Inl (ValueError msg) \<Rightarrow>
          if take 8 msg = ''No bases'' then
            Inl (ValueError (''Can'' @ [CHR 0x27] @ ''t find '' @ attr_name
              @ '' when interpreting docstring of '' @ subject
              @ '', because the class doesn'' @ [CHR 0x27] @ ''t have a baseclass named ''
              @ hd (split_dot attr_name) @ ''.''))
          else Inl (ValueError msg)
      | Inl (AttributeError msg) \<Rightarrow>
          Inl (ValueError (''Can'' @ [CHR 0x27] @ ''t find '' @ attr_name
            @ '' when interpreting docstring of '' @ subject
            @ '', please check whether the CONSTANT exists.''))
      | Inl (KeyError msg) \<Rightarrow>
          Inl (ValueError (''Can'' @ [CHR 0x27] @ ''t find '' @ attr_name
            @ '' when interpreting docstring of '' @ subject
            @ '', please check whether the CONSTANT exists.''))
      | Inl e \<Rightarrow> Inl e)"

definition replace_for_clsdict :: "string \<Rightarrow> pytype list \<Rightarrow> namespace \<Rightarrow> string \<Rightarrow> error + pyval" where
  "replace_for_clsdict name' bases clsdict = replace_in (''class '' @ name') name' bases clsdict"

definition replace_for :: "string \<Rightarrow> pytype list \<Rightarrow> namespace \<Rightarrow> string \<Rightarrow> string \<Rightarrow> error + pyval" where
  "replace_for name' bases clsdict attr =
     replace_in (name' @ ''.'' @ attr) name' bases clsdict"

text \<open>
  \<^verbatim>\<open>
  if not('__doc__' in clsdict and clsdict['__doc__']):
      for mro_cls in (mro_cls for base in bases for mro_cls in base.mro()):
          if mro_cls.META_DOC:
              clsdict['__doc__'] = mro_cls.META_DOC
              break
  \<close>
  \<open>inherited_doc\<close> is the loop: the first \<^verbatim>\<open>META_DOC\<close> that is true, \<open>None\<close> when the
  loop ends without one, or the AttributeError of a class that has no \<^verbatim>\<open>META_DOC\<close>.
\<close>

definition has_own_doc :: "namespace \<Rightarrow> bool" where
  "has_own_doc clsdict =
     (case map_of clsdict ''__doc__'' of None \<Rightarrow> False | Some v \<Rightarrow> truthy v)"

fun inherited_doc :: "pytype list \<Rightarrow> error + pyval option" where
  "inherited_doc [] = Inr None"
| "inherited_doc (mro_cls # rest) =
     (case class_getattr mro_cls ''META_DOC'' of
        Inl e \<Rightarrow> Inl e
      | Inr v \<Rightarrow> if truthy v then Inr (Some v) else inherited_doc rest)"

definition inherit_class_doc :: "pytype list \<Rightarrow> namespace \<Rightarrow> error + namespace" where
  "inherit_class_doc bases clsdict =
     (if \<not> has_own_doc clsdict then
        (case inherited_doc (bases_mro bases) of
           Inl e \<Rightarrow> Inl e
         | Inr None \<Rightarrow> Inr clsdict
         | Inr (Some v) \<Rightarrow> Inr (dict_set ''__doc__'' v clsdict))
      else Inr clsdict)"

text \<open>
  \<^verbatim>\<open>
  if clsdict.get('__doc__'):
      while True:
          doc = re.sub(pattern, replace_for_clsdict, clsdict['__doc__'])
          if doc == clsdict['__doc__']:
              break
          clsdict['__doc__'] = doc
  \<close>
  for the pattern with a leading capital (\<open>lc\<close> true) and for the final one. A
  \<^verbatim>\<open>__doc__\<close> that is true and not a string is the TypeError of \<^verbatim>\<open>re.sub\<close>.
\<close>

partial_function (option) class_doc_loop ::
    "bool \<Rightarrow> string \<Rightarrow> pytype list \<Rightarrow> namespace \<Rightarrow> (error + namespace) option" where
  "class_doc_loop lc name' bases clsdict =
     (case map_of clsdict ''__doc__'' of
        Some (PStr d) \<Rightarrow>
          (case re_sub lc (replace_for_clsdict name' bases clsdict) d of
             Inl e \<Rightarrow> Some (Inl e)
           | Inr doc \<Rightarrow>
               if doc = d then Some (Inr clsdict)
               else class_doc_loop lc name' bases (dict_set ''__doc__'' (PStr doc) clsdict))
      | _ \<Rightarrow> Some (Inl (TypeError ''expected string or bytes-like object'')))"

declare class_doc_loop.simps [code]

definition substitute_class_doc ::
    "bool \<Rightarrow> string \<Rightarrow> pytype list \<Rightarrow> namespace \<Rightarrow> (error + namespace) option" where
  "substitute_class_doc lc name' bases clsdict =
     (if has_own_doc clsdict then class_doc_loop lc name' bases clsdict
      else Some (Inr clsdict))"

text \<open>\<^verbatim>\<open>clsdict['META_DOC'] = clsdict.get('__doc__')\<close>\<close>

definition save_meta_doc :: "namespace \<Rightarrow> namespace" where
  "save_meta_doc clsdict =
     dict_set ''META_DOC''
       (case map_of clsdict ''__doc__'' of None \<Rightarrow> PNone | Some v \<Rightarrow> v) clsdict"

text \<open>
  The docstrings of the built-in types \<^verbatim>\<open>str\<close> and \<^verbatim>\<open>dict\<close> (CPython 3), which are
  the \<^verbatim>\<open>__doc__\<close> of every string and of every dictionary; \<^verbatim>\<open>None.__doc__\<close> is
  \<^verbatim>\<open>None\<close>. \<open>own_doc\<close> is \<^verbatim>\<open>attribute.__func__.__doc__\<close> for a \<^verbatim>\<open>staticmethod\<close> and
  \<^verbatim>\<open>attribute.__doc__\<close> otherwise, read in the store \<open>heap\<close>.
\<close>

definition str_doc :: string where
  "str_doc =
     ''str(object='' @ [CHR 0x27, CHR 0x27] @ '') -> str'' @ [CHR 0x0A]
     @ ''str(bytes_or_buffer[, encoding[, errors]]) -> str'' @ [CHR 0x0A, CHR 0x0A]
     @ ''Create a new string object from the given object. If encoding or'' @ [CHR 0x0A]
     @ ''errors is specified, then the object must expose a data buffer'' @ [CHR 0x0A]
     @ ''that will be decoded using the given encoding and error handler.'' @ [CHR 0x0A]
     @ ''Otherwise, returns the result of object.__str__() (if defined)'' @ [CHR 0x0A]
     @ ''or repr(object).'' @ [CHR 0x0A]
     @ ''encoding defaults to sys.getdefaultencoding().'' @ [CHR 0x0A]
     @ ''errors defaults to '' @ [CHR 0x27] @ ''strict'' @ [CHR 0x27] @ ''.''"

definition dict_doc :: string where
  "dict_doc =
     ''dict() -> new empty dictionary'' @ [CHR 0x0A]
     @ ''dict(mapping) -> new dictionary initialized from a mapping object''
     @ [CHR 0x27] @ ''s'' @ [CHR 0x0A]
     @ ''    (key, value) pairs'' @ [CHR 0x0A]
     @ ''dict(iterable) -> new dictionary initialized as if via:'' @ [CHR 0x0A]
     @ ''    d = {}'' @ [CHR 0x0A]
     @ ''    for k, v in iterable:'' @ [CHR 0x0A]
     @ ''        d[k] = v'' @ [CHR 0x0A]
     @ ''dict(**kwargs) -> new dictionary initialized with the name=value pairs''
     @ [CHR 0x0A]
     @ ''    in the keyword argument list.  For example:  dict(one=1, two=2)''"

fun own_doc :: "store \<Rightarrow> pyval \<Rightarrow> string option" where
  "own_doc heap PNone = None"
| "own_doc heap (PStr s) = Some str_doc"
| "own_doc heap (PDict d) = Some dict_doc"
| "own_doc heap (PFunction f) = heap f"
| "own_doc heap (PStaticMethod func) = heap func"
| "own_doc heap (PClassMethod m) = heap m"
| "own_doc heap (PProperty d fget) = d"

text \<open>
  \<^verbatim>\<open>
  for mro_cls in (mro_cls for base in bases for mro_cls in base.mro()
                  if hasattr(mro_cls, attr)):
      if attr in getattr(mro_cls, "META_DOC_FOR_ATTRIBUTES", {}):
          doc = mro_cls.META_DOC_FOR_ATTRIBUTES[attr]
          break
  else:
      doc = ""
  \<close>
  \<open>inherited_attr_doc\<close> is the loop over the classes that have the attribute. Where
  \<^verbatim>\<open>META_DOC_FOR_ATTRIBUTES\<close> is a string, \<^verbatim>\<open>in\<close> looks for a substring and the
  subscript raises; where it is another object that is no dictionary, \<^verbatim>\<open>in\<close> raises.
\<close>

fun is_substring :: "string \<Rightarrow> string \<Rightarrow> bool" where
  "is_substring a [] = (a = [])"
| "is_substring a (c # cs) = (take (length a) (c # cs) = a \<or> is_substring a cs)"

fun inherited_attr_doc :: "pytype list \<Rightarrow> string \<Rightarrow> error + string" where
  "inherited_attr_doc [] attr = Inr []"
| "inherited_attr_doc (mro_cls # rest) attr =
     (case lookup_mro (mro mro_cls) ''META_DOC_FOR_ATTRIBUTES'' of
        None \<Rightarrow> inherited_attr_doc rest attr
      | Some (PDict docs) \<Rightarrow>
          (case map_of docs attr of
             Some doc \<Rightarrow> Inr doc
           | None \<Rightarrow> inherited_attr_doc rest attr)
      | Some (PStr s) \<Rightarrow>
          if is_substring attr s then Inl (TypeError ''string indices must be integers'')
          else inherited_attr_doc rest attr
      | Some v \<Rightarrow> Inl (TypeError ''argument of type is not iterable''))"

definition inherit_attr_doc :: "pytype list \<Rightarrow> string \<Rightarrow> error + string" where
  "inherit_attr_doc bases attr =
     inherited_attr_doc (filter (\<lambda>mro_cls. class_hasattr mro_cls attr) (bases_mro bases)) attr"

text \<open>
  \<^verbatim>\<open>meta_doc[attr] = doc\<close>, where \<^verbatim>\<open>meta_doc\<close> is the dictionary that
  \<^verbatim>\<open>clsdict['META_DOC_FOR_ATTRIBUTES']\<close> holds.
\<close>

definition meta_doc_set :: "string \<Rightarrow> string \<Rightarrow> namespace \<Rightarrow> namespace" where
  "meta_doc_set attr doc clsdict =
     (case map_of clsdict ''META_DOC_FOR_ATTRIBUTES'' of
        Some (PDict meta_doc) \<Rightarrow>
          dict_set ''META_DOC_FOR_ATTRIBUTES'' (PDict (dict_set attr doc meta_doc)) clsdict
      | _ \<Rightarrow> clsdict)"

text \<open>
  \<^verbatim>\<open>
  if not doc:
      doc = None
  if isinstance(attribute, staticmethod):
      if doc == attribute.__func__.__doc__:
          continue
      else:
          attribute.__func__.__doc__ = doc
  else:
      if doc == attribute.__doc__:
          continue
      elif isinstance(attribute, property):
          clsdict[attr] = property(attribute.fget, attribute.fset, attribute.fdel, doc)
      else:
          attribute.__doc__ = doc
  \<close>
  The assignments change the object, in the store; only a property is replaced in the
  namespace. The \<^verbatim>\<open>__doc__\<close> of \<^verbatim>\<open>None\<close>, of a string and of a dictionary cannot be
  assigned.
\<close>

definition set_doc ::
    "string \<Rightarrow> pyval \<Rightarrow> string \<Rightarrow> store \<Rightarrow> namespace \<Rightarrow> error + store \<times> namespace" where
  "set_doc attr attribute doc heap clsdict =
     (let doc' = (if doc = [] then None else Some doc)
      in case attribute of
           PStaticMethod func \<Rightarrow>
             if doc' = heap func then Inr (heap, clsdict)
             else Inr (heap(func := doc'), clsdict)
         | _ \<Rightarrow>
             if doc' = own_doc heap attribute then Inr (heap, clsdict)
             else (case attribute of
                     PProperty d fget \<Rightarrow>
                       Inr (heap, dict_set attr (new_property heap fget doc') clsdict)
                   | PFunction f \<Rightarrow> Inr (heap(f := doc'), clsdict)
                   | PClassMethod m \<Rightarrow> Inr (heap(m := doc'), clsdict)
                   | _ \<Rightarrow> Inl (AttributeError ''attribute __doc__ is read-only'')))"

text \<open>
  The body of the loop \<^verbatim>\<open>for attr, attribute in clsdict.items()\<close>: the docstring that
  the attribute has when its turn comes, or the inherited one when \<^verbatim>\<open>not doc\<close>
  (\<open>attribute_doc\<close>, given what \<^verbatim>\<open>attribute.__doc__\<close> reads), the substitution of the
  constants with a leading capital, \<^verbatim>\<open>meta_doc[attr] = doc\<close>, the final substitution, and
  the assignment of the docstring. The loop runs over the items that the namespace has
  when the loop starts (\<open>attributes_loop\<close>, with the store and the namespace as they
  change): a namespace entry is replaced in its own turn only, and the dictionary of
  \<^verbatim>\<open>META_DOC_FOR_ATTRIBUTES\<close> is filled where it is, in the namespace.
\<close>

definition attribute_doc :: "pytype list \<Rightarrow> string \<Rightarrow> string option \<Rightarrow> error + string" where
  "attribute_doc bases attr doc =
     (case doc of
        None \<Rightarrow> inherit_attr_doc bases attr
      | Some d \<Rightarrow> if d = [] then inherit_attr_doc bases attr else Inr d)"

definition process_attribute ::
    "string \<Rightarrow> pytype list \<Rightarrow> string \<Rightarrow> pyval \<Rightarrow> store \<Rightarrow> namespace
      \<Rightarrow> (error + store \<times> namespace) option" where
  "process_attribute name' bases attr attribute heap clsdict =
     (case attribute_doc bases attr (own_doc heap attribute) of
        Inl e \<Rightarrow> Some (Inl e)
      | Inr doc \<Rightarrow>
          (case substitute (re_sub True (replace_for name' bases clsdict attr)) doc of
             None \<Rightarrow> None
           | Some (Inl e) \<Rightarrow> Some (Inl e)
           | Some (Inr doc1) \<Rightarrow>
               (let clsdict1 = meta_doc_set attr doc1 clsdict
                in case substitute (re_sub False (replace_for name' bases clsdict1 attr)) doc1 of
                     None \<Rightarrow> None
                   | Some (Inl e) \<Rightarrow> Some (Inl e)
                   | Some (Inr doc2) \<Rightarrow> Some (set_doc attr attribute doc2 heap clsdict1))))"

fun attributes_loop ::
    "string \<Rightarrow> pytype list \<Rightarrow> (string \<times> pyval) list \<Rightarrow> store \<Rightarrow> namespace
      \<Rightarrow> (error + store \<times> namespace) option" where
  "attributes_loop name' bases [] heap clsdict = Some (Inr (heap, clsdict))"
| "attributes_loop name' bases ((attr, attribute) # items) heap clsdict =
     (case process_attribute name' bases attr attribute heap clsdict of
        None \<Rightarrow> None
      | Some (Inl e) \<Rightarrow> Some (Inl e)
      | Some (Inr (heap', clsdict')) \<Rightarrow> attributes_loop name' bases items heap' clsdict')"

text \<open>
  \<^verbatim>\<open>__new__(cls, name, bases, clsdict)\<close>, up to the call of \<^verbatim>\<open>type.__new__\<close>, in the
  store \<open>heap\<close>: the result is the store and the namespace that \<^verbatim>\<open>type.__new__\<close> makes
  the class from, an exception, or \<open>None\<close> when a substitution loop does not end.
  \<open>class_doc_stage\<close> is the part on the class docstring (lines 80 to 103), after the
  inheritance.
\<close>

definition class_doc_stage :: "string \<Rightarrow> pytype list \<Rightarrow> namespace \<Rightarrow> (error + namespace) option" where
  "class_doc_stage name' bases clsdict =
     (case substitute_class_doc True name' bases clsdict of
        None \<Rightarrow> None
      | Some (Inl e) \<Rightarrow> Some (Inl e)
      | Some (Inr clsdict1) \<Rightarrow>
          substitute_class_doc False name' bases (save_meta_doc clsdict1))"

definition DocStringInheritor_new ::
    "string \<Rightarrow> pytype list \<Rightarrow> namespace \<Rightarrow> store \<Rightarrow> (error + store \<times> namespace) option" where
  "DocStringInheritor_new name' bases clsdict heap =
     (case inherit_class_doc bases clsdict of
        Inl e \<Rightarrow> Some (Inl e)
      | Inr clsdict0 \<Rightarrow>
          (case class_doc_stage name' bases clsdict0 of
             None \<Rightarrow> None
           | Some (Inl e) \<Rightarrow> Some (Inl e)
           | Some (Inr clsdict2) \<Rightarrow>
               (let clsdict3 = dict_set ''META_DOC_FOR_ATTRIBUTES'' (PDict []) clsdict2
                in attributes_loop name' bases clsdict3 heap clsdict3)))"


subsection \<open>Example classes\<close>

text \<open>
  \<^verbatim>\<open>
  class P1(metaclass=DocStringInheritor):
      """Loader for {_KIND}."""
      _KIND = "p"
      def f(self): pass
      def g(self):
          """Get {_KIND}."""
  class P2(metaclass=DocStringInheritor):
      def f(self):
          """Doc of f."""
  class C(P1, P2):
      _KIND = "c"
      def f(self): pass
      def g(self): pass
  class Reader(metaclass=DocStringInheritor):
      """Base."""
      def f(self):
          """Doc f."""
      def g(self):
          """Doc g."""
  class Alias(Reader):
      def f(self): pass
      g = f
  \<close>
  with the namespaces that the class statements hand to the metaclass (without
  \<^verbatim>\<open>__module__\<close> and \<^verbatim>\<open>__qualname__\<close>), and the namespaces of \<^verbatim>\<open>P1\<close>, \<^verbatim>\<open>P2\<close> and
  \<^verbatim>\<open>Reader\<close> as the metaclass leaves them. The function objects are numbered in the order
  of the text, from 10 for \<^verbatim>\<open>P1.f\<close> to 17 for the one function of \<^verbatim>\<open>Alias\<close>.
  \<open>body_store\<close> has the docstrings as the class bodies give them, and \<open>bases_store\<close> is
  the store once \<^verbatim>\<open>P1\<close>, \<^verbatim>\<open>P2\<close> and \<^verbatim>\<open>Reader\<close> are created.
\<close>

definition body_store :: store where
  "body_store =
     (\<lambda>r. None)(11 := Some ''Get {_KIND}.'', 12 := Some ''Doc of f.'',
                15 := Some ''Doc f.'', 16 := Some ''Doc g.'')"

definition bases_store :: store where
  "bases_store = body_store(11 := Some ''Get p.'')"

definition object_type :: pytype where
  "object_type = PyType ''object'' [(''__doc__'', PStr ''The most base type'')] []"

definition P1_body :: namespace where
  "P1_body =
     [(''__doc__'', PStr ''Loader for {_KIND}.''),
      (''_KIND'', PStr ''p''),
      (''f'', PFunction 10),
      (''g'', PFunction 11)]"

definition P1_namespace :: namespace where
  "P1_namespace =
     [(''__doc__'', PStr ''Loader for p.''),
      (''_KIND'', PStr ''p''),
      (''f'', PFunction 10),
      (''g'', PFunction 11),
      (''META_DOC'', PStr ''Loader for {_KIND}.''),
      (''META_DOC_FOR_ATTRIBUTES'',
         PDict [(''__doc__'', str_doc), (''_KIND'', str_doc), (''f'', []),
                (''g'', ''Get {_KIND}.''), (''META_DOC'', str_doc),
                (''META_DOC_FOR_ATTRIBUTES'', dict_doc)])]"

definition P2_body :: namespace where
  "P2_body = [(''f'', PFunction 12)]"

definition P2_namespace :: namespace where
  "P2_namespace =
     [(''f'', PFunction 12),
      (''META_DOC'', PNone),
      (''META_DOC_FOR_ATTRIBUTES'',
         PDict [(''f'', ''Doc of f.''), (''META_DOC'', []),
                (''META_DOC_FOR_ATTRIBUTES'', dict_doc)])]"

definition P1 :: pytype where
  "P1 = PyType ''P1'' P1_namespace [object_type]"

definition P2 :: pytype where
  "P2 = PyType ''P2'' P2_namespace [object_type]"

definition C_body :: namespace where
  "C_body = [(''_KIND'', PStr ''c''), (''f'', PFunction 13), (''g'', PFunction 14)]"

definition C_namespace :: namespace where
  "C_namespace =
     [(''_KIND'', PStr ''c''),
      (''f'', PFunction 13),
      (''g'', PFunction 14),
      (''__doc__'', PStr ''Loader for c.''),
      (''META_DOC'', PStr ''Loader for {_KIND}.''),
      (''META_DOC_FOR_ATTRIBUTES'',
         PDict [(''_KIND'', str_doc), (''f'', []), (''g'', ''Get {_KIND}.''),
                (''__doc__'', str_doc), (''META_DOC'', str_doc),
                (''META_DOC_FOR_ATTRIBUTES'', dict_doc)])]"

definition Reader_body :: namespace where
  "Reader_body = [(''__doc__'', PStr ''Base.''), (''f'', PFunction 15), (''g'', PFunction 16)]"

definition Reader_namespace :: namespace where
  "Reader_namespace =
     [(''__doc__'', PStr ''Base.''),
      (''f'', PFunction 15),
      (''g'', PFunction 16),
      (''META_DOC'', PStr ''Base.''),
      (''META_DOC_FOR_ATTRIBUTES'',
         PDict [(''__doc__'', str_doc), (''f'', ''Doc f.''), (''g'', ''Doc g.''),
                (''META_DOC'', str_doc), (''META_DOC_FOR_ATTRIBUTES'', dict_doc)])]"

definition Reader :: pytype where
  "Reader = PyType ''Reader'' Reader_namespace [object_type]"

definition Alias_body :: namespace where
  "Alias_body = [(''f'', PFunction 17), (''g'', PFunction 17)]"

definition Alias_namespace :: namespace where
  "Alias_namespace =
     [(''f'', PFunction 17),
      (''g'', PFunction 17),
      (''__doc__'', PStr ''Base.''),
      (''META_DOC'', PStr ''Base.''),
      (''META_DOC_FOR_ATTRIBUTES'',
         PDict [(''f'', ''Doc f.''), (''g'', ''Doc f.''), (''__doc__'', str_doc),
                (''META_DOC'', str_doc), (''META_DOC_FOR_ATTRIBUTES'', dict_doc)])]"

subsection \<open>Vocabulary for the properties of the metaclass\<close>

text \<open>
  \<open>has_meta_doc c\<close>: the class has a \<^verbatim>\<open>META_DOC\<close> and it is true (a non-empty string).
  \<open>meta_doc_for c attr\<close>: the entry of \<open>attr\<close> in the \<^verbatim>\<open>META_DOC_FOR_ATTRIBUTES\<close> of the
  class, where that is a dictionary with such an entry. \<open>attr_doc_entries bases attr\<close>:
  these entries for the classes that have the attribute, in the order of the loop.
\<close>

definition has_meta_doc :: "pytype \<Rightarrow> bool" where
  "has_meta_doc c = (case class_getattr c ''META_DOC'' of Inl e \<Rightarrow> False | Inr v \<Rightarrow> truthy v)"

definition meta_doc_for :: "pytype \<Rightarrow> string \<Rightarrow> string option" where
  "meta_doc_for c attr =
     (case lookup_mro (mro c) ''META_DOC_FOR_ATTRIBUTES'' of
        Some (PDict docs) \<Rightarrow> map_of docs attr
      | _ \<Rightarrow> None)"

definition attr_doc_entries :: "pytype list \<Rightarrow> string \<Rightarrow> string list" where
  "attr_doc_entries bases attr =
     List.map_filter (\<lambda>c. meta_doc_for c attr)
       (filter (\<lambda>c. class_hasattr c attr) (bases_mro bases))"

definition has_nonempty_attr_doc :: "string \<Rightarrow> pytype \<Rightarrow> bool" where
  "has_nonempty_attr_doc attr c =
     (case meta_doc_for c attr of None \<Rightarrow> False | Some d \<Rightarrow> d \<noteq> [])"

text \<open>
  The methods and properties among the objects. \<open>doc_target v\<close> is the object whose
  \<^verbatim>\<open>__doc__\<close> the loop assigns in the turn of \<open>v\<close>: the function, the \<^verbatim>\<open>__func__\<close> of a
  \<^verbatim>\<open>staticmethod\<close>, the \<^verbatim>\<open>classmethod\<close> object; \<open>doc_targets items\<close> are these objects for a
  list of namespace items. \<open>entry_after heap v doc\<close> is the namespace entry after the turn
  of \<open>v\<close>, when the turn started in the store \<open>heap\<close> and ended with the docstring \<open>doc\<close>:
  a property whose docstring is not \<open>doc\<close> is replaced, any other entry stays.
\<close>

fun is_property :: "pyval \<Rightarrow> bool" where
  "is_property (PProperty d fget) = True"
| "is_property v = False"

fun doc_target :: "pyval \<Rightarrow> ref option" where
  "doc_target (PFunction f) = Some f"
| "doc_target (PStaticMethod func) = Some func"
| "doc_target (PClassMethod m) = Some m"
| "doc_target v = None"

definition is_method_or_property :: "pyval \<Rightarrow> bool" where
  "is_method_or_property v = (is_property v \<or> doc_target v \<noteq> None)"

definition doc_targets :: "namespace \<Rightarrow> ref list" where
  "doc_targets items = List.map_filter (\<lambda>(attr, attribute). doc_target attribute) items"

fun entry_after :: "store \<Rightarrow> pyval \<Rightarrow> string option \<Rightarrow> pyval" where
  "entry_after heap (PProperty d fget) doc =
     (if doc = d then PProperty d fget else new_property heap fget doc)"
| "entry_after heap v doc = v"

text \<open>
  A text holds a placeholder when the final pattern matches somewhere in it; where the
  pattern with the leading capital matches, the final pattern matches too.
\<close>

fun has_placeholder :: "string \<Rightarrow> bool" where
  "has_placeholder [] = False"
| "has_placeholder (c # cs) =
     ((c = CHR ''{'' \<and> match_placeholder False cs \<noteq> None) \<or> has_placeholder cs)"

text \<open>
  The docstring that the class starts from: its own when that is true, and otherwise the
  \<^verbatim>\<open>META_DOC\<close> of the first class of the loop that has a true one, when there is such a
  class.
\<close>

definition start_doc :: "pytype list \<Rightarrow> namespace \<Rightarrow> pyval option" where
  "start_doc bases clsdict =
     (if has_own_doc clsdict then map_of clsdict ''__doc__''
      else (case find has_meta_doc (bases_mro bases) of
              Some c \<Rightarrow> lookup_mro (mro c) ''META_DOC''
            | None \<Rightarrow> map_of clsdict ''__doc__''))"

text \<open>
  The two substitutions of an attribute's docstring \<open>doc\<close> against the namespace
  \<open>clsdict\<close>: the docstring after the substitution of the constants with a leading capital
  (the entry of \<^verbatim>\<open>META_DOC_FOR_ATTRIBUTES\<close>) and after the final substitution.
\<close>

definition attr_docs ::
    "string \<Rightarrow> pytype list \<Rightarrow> namespace \<Rightarrow> string \<Rightarrow> string \<Rightarrow> (error + string \<times> string) option" where
  "attr_docs name' bases clsdict attr doc =
     (case substitute (re_sub True (replace_for name' bases clsdict attr)) doc of
        None \<Rightarrow> None
      | Some (Inl e) \<Rightarrow> Some (Inl e)
      | Some (Inr doc1) \<Rightarrow>
          (case substitute (re_sub False (replace_for name' bases clsdict attr)) doc1 of
             None \<Rightarrow> None
           | Some (Inl e) \<Rightarrow> Some (Inl e)
           | Some (Inr doc2) \<Rightarrow> Some (Inr (doc1, doc2))))"

text \<open>
  The namespace with which the loop over the attributes starts, and the entries of a
  namespace under the names that \<^verbatim>\<open>__new__\<close> does not write before the loop.
\<close>

definition attributes_start :: "string \<Rightarrow> pytype list \<Rightarrow> namespace \<Rightarrow> (error + namespace) option" where
  "attributes_start name' bases clsdict =
     (case inherit_class_doc bases clsdict of
        Inl e \<Rightarrow> Some (Inl e)
      | Inr clsdict0 \<Rightarrow>
          (case class_doc_stage name' bases clsdict0 of
             None \<Rightarrow> None
           | Some (Inl e) \<Rightarrow> Some (Inl e)
           | Some (Inr clsdict2) \<Rightarrow>
               Some (Inr (dict_set ''META_DOC_FOR_ATTRIBUTES'' (PDict []) clsdict2))))"

definition is_written_name :: "string \<Rightarrow> bool" where
  "is_written_name k = (k \<in> {''__doc__'', ''META_DOC'', ''META_DOC_FOR_ATTRIBUTES''})"

definition other_entries :: "namespace \<Rightarrow> namespace" where
  "other_entries clsdict = filter (\<lambda>(k, v). \<not> is_written_name k) clsdict"

text \<open>
  Only strings and \<^verbatim>\<open>None\<close> get into the result of \<^verbatim>\<open>re.sub\<close>; any other object that
  the function returns makes the join fail, whichever it is. \<open>const_of\<close> keeps a string
  and \<^verbatim>\<open>None\<close> and maps every other object to one. Two namespaces have the same
  constants when every name has the same string or \<^verbatim>\<open>None\<close> in both, or another object
  in both, or is in neither.
\<close>

fun const_of :: "pyval \<Rightarrow> pyval" where
  "const_of PNone = PNone"
| "const_of (PStr s) = PStr s"
| "const_of v = PDict []"

definition same_consts :: "namespace \<Rightarrow> namespace \<Rightarrow> bool" where
  "same_consts c c' = (\<forall>k. map_option const_of (map_of c k) = map_option const_of (map_of c' k))"

section \<open>Properties of the utility functions\<close>

lemma py_slice_prefix: "i \<le> length xs \<Longrightarrow> py_slice xs 0 (int i) = take i xs"
  by (simp add: py_slice_def clamp_index_def)

lemma list_index_Inr:
  "list_index xs t = Inr i \<Longrightarrow>
     i < length xs \<and> xs ! i = t \<and> t \<notin> set (take i xs) \<and> take i xs = takeWhile (\<lambda>x. x \<noteq> t) xs"
proof (induction xs arbitrary: i)
  case Nil
  then show ?case by simp
next
  case (Cons x xs)
  show ?case
  proof (cases "x = t")
    case True
    with Cons.prems show ?thesis by simp
  next
    case False
    with Cons.prems obtain j where j: "list_index xs t = Inr j" and i: "i = Suc j"
      by (auto split: sum.splits)
    from Cons.IH [OF j] False i show ?thesis by (auto dest: set_takeWhileD)
  qed
qed

lemma list_index_Inl: "list_index xs t = Inl e \<Longrightarrow> t \<notin> set xs"
  by (induction xs) (auto split: if_splits sum.splits)

lemma list_index_found: "t \<in> set xs \<Longrightarrow> \<exists>i. list_index xs t = Inr i"
  by (induction xs) auto

lemma takeWhile_absent: "t \<notin> set xs \<Longrightarrow> takeWhile (\<lambda>x. x \<noteq> t) xs = xs"
  by (induction xs) auto

lemma trim_before_target_takeWhile:
  "trim_before_target lists' target = takeWhile (\<lambda>x. x \<noteq> target) lists'"
proof (cases "list_index lists' target")
  case (Inl e)
  then have "target \<notin> set lists'" by (rule list_index_Inl)
  with Inl show ?thesis by (simp add: trim_before_target_def takeWhile_absent)
next
  case (Inr i)
  from list_index_Inr [OF Inr] have "i \<le> length lists'"
    and "take i lists' = takeWhile (\<lambda>x. x \<noteq> target) lists'" by simp_all
  with Inr show ?thesis by (simp add: trim_before_target_def py_slice_prefix)
qed

text \<open>
  Claim C10. \<open>trim_before_target\<close> returns the prefix of the list strictly before the
  first occurrence of the target: the longest prefix without the target, which is
  followed by the target when the target occurs. When the target does not occur, the list
  is returned unchanged.
\<close>

theorem trim_before_target_prefix:
  "trim_before_target lists' target = takeWhile (\<lambda>x. x \<noteq> target) lists'
   \<and> target \<notin> set (trim_before_target lists' target)
   \<and> (target \<in> set lists' \<longrightarrow>
        (\<exists>rest. lists' = trim_before_target lists' target @ target # rest))
   \<and> (target \<notin> set lists' \<longrightarrow> trim_before_target lists' target = lists')"
proof -
  let ?r = "takeWhile (\<lambda>x. x \<noteq> target) lists'"
  have eq: "trim_before_target lists' target = ?r" by (rule trim_before_target_takeWhile)
  have notin: "target \<notin> set ?r" by (auto dest: set_takeWhileD)
  have found: "\<exists>rest. lists' = ?r @ target # rest" if "target \<in> set lists'"
  proof -
    from that have ne: "dropWhile (\<lambda>x. x \<noteq> target) lists' \<noteq> []" by auto
    then have "hd (dropWhile (\<lambda>x. x \<noteq> target) lists') = target"
      using hd_dropWhile [of "\<lambda>x. x \<noteq> target" lists'] by simp
    with ne have "dropWhile (\<lambda>x. x \<noteq> target) lists'
        = target # tl (dropWhile (\<lambda>x. x \<noteq> target) lists')"
      by (cases "dropWhile (\<lambda>x. x \<noteq> target) lists'") simp_all
    then have "lists' = ?r @ target # tl (dropWhile (\<lambda>x. x \<noteq> target) lists')"
      using takeWhile_dropWhile_id [of "\<lambda>x. x \<noteq> target" lists'] by simp
    then show ?thesis by blast
  qed
  have absent: "?r = lists'" if "target \<notin> set lists'"
    using that by (rule takeWhile_absent)
  from eq notin found absent show ?thesis by simp
qed

theorem trim_before_target_prefix_witness:
  "(2::int) \<in> set [1, 2, 3, 2] \<and> trim_before_target [1, 2, 3, 2] (2::int) = [1]
   \<and> (5::int) \<notin> set [1, 2, 3, 2] \<and> trim_before_target [1, 2, 3, 2] (5::int) = [1, 2, 3, 2]"
  using trim_before_target_prefix [of "[1, 2, 3, 2]" "2::int"]
    trim_before_target_prefix [of "[1, 2, 3, 2]" "5::int"]
  by simp

lemma py_slice_middle:
  "py_slice (pre @ s @ rest) (int (length pre)) (int (length pre) + int (length s)) = s"
  by (simp add: py_slice_def clamp_index_def)

lemma restore_loop_chain:
  "restore_loop (pre @ concat sessions) (map (\<lambda>session. int (length session)) sessions)
     acc (int (length pre)) = acc @ sessions"
proof (induction sessions arbitrary: pre acc)
  case Nil
  then show ?case by simp
next
  case (Cons s sessions)
  have "restore_loop ((pre @ s) @ concat sessions)
          (map (\<lambda>session. int (length session)) sessions)
          (acc @ [s]) (int (length (pre @ s))) = (acc @ [s]) @ sessions"
    by (rule Cons.IH)
  moreover have "py_slice (pre @ s @ concat sessions) (int (length pre))
      (int (length pre) + int (length s)) = s"
    by (rule py_slice_middle)
  ultimately show ?case by simp
qed

text \<open>
  Claim C9. Flattening a list of sessions with \<open>chain_sessions\<close> and restoring it with
  \<open>restore_sessions\<close> from the chained list and the lengths gives the original list of
  sessions back.
\<close>

theorem restore_chain_sessions:
  "(case chain_sessions sessions of
      (chained, lengths) \<Rightarrow> restore_sessions chained lengths) = sessions"
  using restore_loop_chain [of "[]" sessions "[]"]
  by (simp add: chain_sessions_def restore_sessions_def)

theorem restore_chain_sessions_witness:
  "chain_sessions [[1, 2], [], [3::int]] = ([1, 2, 3], [2, 0, 1])
   \<and> restore_sessions [1, 2, 3::int] [2, 0, 1] = [[1, 2], [], [3]]"
  using restore_chain_sessions [of "[[1, 2], [], [3::int]]"]
  by (simp add: chain_sessions_def)

section \<open>Properties of \<^verbatim>\<open>load_class\<close>\<close>

text \<open>
  What the loop returns is decided by the classes of the traversal whose lower-cased name
  is the lower-cased \<open>class_name\<close>, in the order of the traversal.
\<close>

lemma load_class_loop_Some:
  "load_class_loop class_name xs (Some r) =
     (case filter (\<lambda>c. lower (name c) = lower class_name) xs of
        [] \<Rightarrow> Inr (Some r)
      | s # rest \<Rightarrow> Inl (two_classes_error class_name r s))"
  by (induction xs) simp_all

lemma load_class_loop_None:
  "load_class_loop class_name xs None =
     (case filter (\<lambda>c. lower (name c) = lower class_name) xs of
        [] \<Rightarrow> Inr None
      | [r] \<Rightarrow> Inr (Some r)
      | r # s # rest \<Rightarrow> Inl (two_classes_error class_name r s))"
  by (induction xs) (simp_all add: load_class_loop_Some split: list.splits)

lemma two_members_filter:
  assumes "a \<in> set xs" "b \<in> set xs" "a \<noteq> b" "P a" "P b"
  shows "\<exists>r s rest. filter P xs = r # s # rest"
proof -
  from assms have "a \<in> set (filter P xs)" "b \<in> set (filter P xs)" by simp_all
  with \<open>a \<noteq> b\<close> show ?thesis
    by (cases "filter P xs" rule: list.exhaust; cases "tl (filter P xs)" rule: list.exhaust)
      auto
qed

lemma filter_Cons_Cons_distinct:
  assumes "filter P xs = r # s # rest" "distinct xs"
  shows "r \<noteq> s"
proof -
  from assms(2) have "distinct (filter P xs)" by (rule distinct_filter)
  with assms(1) show ?thesis by simp
qed

text \<open>
  Claim C4, as the code has it. When two distinct subclasses of the hierarchy have the
  name \<open>class_name\<close> up to case, \<open>load_class\<close> raises and returns no class. With \<open>r\<close>
  and \<open>s\<close> the first two classes of the traversal that have this name up to case: when
  \<^verbatim>\<open>inspect.getfile\<close> gives a file for both, the exception is the RuntimeError whose
  message holds \<open>class_name\<close>, the file of \<open>r\<close> and the file of \<open>s\<close>; when it raises for
  \<open>r\<close>, or else for \<open>s\<close>, the exception is the one that \<^verbatim>\<open>inspect.getfile\<close> raises, and
  no RuntimeError is made. Where no class is met twice in the traversal, \<open>r\<close> and \<open>s\<close> are
  two different classes.
\<close>

theorem load_class_duplicate_raises:
  assumes "a \<in> set (get_all_subclasses cls)" and "b \<in> set (get_all_subclasses cls)"
    and "a \<noteq> b"
    and "lower (name a) = lower class_name" and "lower (name b) = lower class_name"
  shows \<open>\<exists>r s rest.
      filter (\<lambda>c. lower (name c) = lower class_name) (get_all_subclasses cls) = r # s # rest
      \<and> load_class cls class_name =
          (case getfile r of
             Inl e \<Rightarrow> Inl e
           | Inr file1 \<Rightarrow>
               (case getfile s of
                  Inl e \<Rightarrow> Inl e
                | Inr file2 \<Rightarrow>
                    Inl (RuntimeError
                      (''There are two classes with the name "'' @ class_name
                       @ ''" located at "'' @ file1 @ ''" and "'' @ file2 @ ''". ''
                       @ replicate 6 (CHR 0x09)
                       @ ''You have to remove one of them to make "load_class" work normally.''))))
      \<and> (\<exists>e. load_class cls class_name = Inl e)
      \<and> (distinct (get_all_subclasses cls) \<longrightarrow> r \<noteq> s)\<close>
proof -
  let ?P = "\<lambda>c. lower (name c) = lower class_name"
  from assms obtain r s rest where f: "filter ?P (get_all_subclasses cls) = r # s # rest"
    using two_members_filter [of a "get_all_subclasses cls" b ?P] by blast
  then have raised: "load_class cls class_name = Inl (two_classes_error class_name r s)"
    by (simp add: load_class_def load_class_loop_None)
  have "r \<noteq> s" if "distinct (get_all_subclasses cls)"
    using f that by (rule filter_Cons_Cons_distinct)
  with f raised show ?thesis
    by (intro exI [of _ r] exI [of _ s] exI [of _ rest])
      (simp add: two_classes_error_def two_classes_message_def split: sum.splits)
qed

theorem load_class_duplicate_raises_witness:
  \<open>load_class example_hierarchy ''OpenSubtitles''
     = Inl (RuntimeError
         (''There are two classes with the name "OpenSubtitles" located at ''
          @ ''"single_turn_dialog.py" and "mine.py". '' @ replicate 6 (CHR 0x09)
          @ ''You have to remove one of them to make "load_class" work normally.''))\<close>
proof -
  let ?a = "PyClass 3 ''OpenSubtitles'' (Inr ''single_turn_dialog.py'') []"
  let ?b = "PyClass 4 ''opensubtitles'' (Inr ''mine.py'') []"
  have subs: "get_all_subclasses example_hierarchy =
      [?a, PyClass 2 ''SingleTurnDialog'' (Inr ''single_turn_dialog.py'') [?a], ?b,
       PyClass 1 ''LanguageProcessing'' (Inr ''dataloader.py'')
         [PyClass 2 ''SingleTurnDialog'' (Inr ''single_turn_dialog.py'') [?a], ?b]]"
    by (simp add: example_hierarchy_def)
  have a: "?a \<in> set (get_all_subclasses example_hierarchy)" by (simp add: subs)
  have b: "?b \<in> set (get_all_subclasses example_hierarchy)" by (simp add: subs)
  have ab: "?a \<noteq> ?b" by simp
  have la: "lower (name ?a) = lower ''OpenSubtitles''" by simp
  have lb: "lower (name ?b) = lower ''OpenSubtitles''" by (simp add: lower_def lower_char_def)
  have f: "filter (\<lambda>c. lower (name c) = lower ''OpenSubtitles'')
      (get_all_subclasses example_hierarchy) = [?a, ?b]"
    by (simp add: subs lower_def lower_char_def)
  from load_class_duplicate_raises [OF a b ab la lb] f show ?thesis by auto
qed

text \<open>
  The claim as stated asks for a RuntimeError that reports both class locations. The two
  plug-in classes \<^verbatim>\<open>Dm\<close> and \<^verbatim>\<open>DM\<close> are distinct and have the same name up to case, but
  they have no location to report: the call ends in the TypeError of \<^verbatim>\<open>inspect.getfile\<close>
  for the first of them.
\<close>

theorem load_class_duplicate_raises_counterexample:
  "get_all_subclasses plugin_hierarchy
     = [PyClass 1 ''Dm'' (Inl (no_source_file ''plugin.Dm'')) [],
        PyClass 2 ''DM'' (Inl (no_source_file ''plugin.DM'')) []]
   \<and> lower ''Dm'' = lower ''dm'' \<and> lower ''DM'' = lower ''dm''
   \<and> load_class plugin_hierarchy ''dm''
       = Inl (TypeError (''<class '' @ [CHR 0x27] @ ''plugin.Dm'' @ [CHR 0x27]
           @ ''> is a built-in class''))
   \<and> \<not> (\<exists>message. load_class plugin_hierarchy ''dm'' = Inl (RuntimeError message))"
  by (simp add: plugin_hierarchy_def load_class_def two_classes_error_def no_source_file_def
      lower_def lower_char_def)

text \<open>
  Claim C5, as the code has it. When no subclass of the hierarchy has the name
  \<open>class_name\<close> up to case, \<open>load_class\<close> raises nothing: it returns \<^verbatim>\<open>None\<close>, and
  reporting the unknown name is left to the caller.
\<close>

theorem load_class_unknown_name_None:
  assumes "\<forall>c \<in> set (get_all_subclasses cls). lower (name c) \<noteq> lower class_name"
  shows "load_class cls class_name = Inr None"
proof -
  from assms have "filter (\<lambda>c. lower (name c) = lower class_name) (get_all_subclasses cls) = []"
    by (simp add: filter_empty_conv)
  then show ?thesis by (simp add: load_class_def load_class_loop_None)
qed

theorem load_class_unknown_name_None_witness:
  "map (\<lambda>c. lower (name c)) (get_all_subclasses example_hierarchy)
     = [''opensubtitles'', ''singleturndialog'', ''opensubtitles'', ''languageprocessing'']
   \<and> lower ''Seq2Seq'' = ''seq2seq''
   \<and> load_class example_hierarchy ''Seq2Seq'' = Inr None"
proof -
  have names: "map (\<lambda>c. lower (name c)) (get_all_subclasses example_hierarchy)
     = [''opensubtitles'', ''singleturndialog'', ''opensubtitles'', ''languageprocessing'']"
    by (simp add: example_hierarchy_def lower_def lower_char_def)
  have l: "lower ''Seq2Seq'' = ''seq2seq''" by (simp add: lower_def lower_char_def)
  have "\<forall>c \<in> set (get_all_subclasses example_hierarchy). lower (name c) \<noteq> lower ''Seq2Seq''"
  proof
    fix c assume "c \<in> set (get_all_subclasses example_hierarchy)"
    then have "lower (name c) \<in> set (map (\<lambda>c. lower (name c)) (get_all_subclasses example_hierarchy))"
      by simp
    then show "lower (name c) \<noteq> lower ''Seq2Seq''" unfolding names l by auto
  qed
  then have "load_class example_hierarchy ''Seq2Seq'' = Inr None"
    by (rule load_class_unknown_name_None)
  with names l show ?thesis by simp
qed

text \<open>
  The claim as stated asks for a raised exception. On the example hierarchy no class is
  named \<^verbatim>\<open>seq2seq\<close> up to case, and the call returns \<^verbatim>\<open>None\<close>.
\<close>

theorem load_class_unknown_name_counterexample:
  "filter (\<lambda>c. lower (name c) = lower ''Seq2Seq'') (get_all_subclasses example_hierarchy) = []
   \<and> \<not> (\<exists>e. load_class example_hierarchy ''Seq2Seq'' = Inl e)"
  by (simp add: example_hierarchy_def load_class_def lower_def lower_char_def)

section \<open>Properties of \<^verbatim>\<open>replace_unk\<close> and of the batches\<close>

lemma fold_max_ge: "a \<le> fold max xs (a::nat)"
  by (induction xs arbitrary: a) (auto intro: order_trans [OF max.cobounded2])

lemma fold_max_mem: "x \<in> set xs \<Longrightarrow> x \<le> fold max xs (a::nat)"
proof (induction xs arbitrary: a)
  case Nil
  then show ?case by simp
next
  case (Cons y ys)
  show ?case
  proof (cases "x = y")
    case True
    have "max y a \<le> fold max ys (max y a)" by (rule fold_max_ge)
    with True show ?thesis by simp
  next
    case False
    with Cons show ?thesis by simp
  qed
qed

lemma fold_max_in: "fold max xs (a::nat) = a \<or> fold max xs a \<in> set xs"
proof (induction xs arbitrary: a)
  case Nil
  then show ?case by simp
next
  case (Cons y ys)
  from Cons [of "max y a"] show ?case by (auto simp: max_def split: if_splits)
qed

lemma max_of_lengths_ge: "n \<in> set lengths \<Longrightarrow> n \<le> max_of_lengths lengths"
  by (simp add: max_of_lengths_def fold_max_mem)

lemma max_of_lengths_Max:
  assumes ne: "lengths \<noteq> []"
  shows "max_of_lengths lengths = Max (set lengths)"
proof -
  have mem: "max_of_lengths lengths \<in> set lengths"
  proof -
    from fold_max_in [of lengths 0]
    have "fold max lengths 0 = 0 \<or> fold max lengths 0 \<in> set lengths" .
    then show ?thesis
    proof
      assume z: "fold max lengths 0 = 0"
      from ne obtain x where x: "x \<in> set lengths" by (cases lengths) auto
      then have "x \<le> fold max lengths 0" by (rule fold_max_mem)
      with z x show ?thesis by (simp add: max_of_lengths_def)
    next
      assume "fold max lengths 0 \<in> set lengths"
      then show ?thesis by (simp add: max_of_lengths_def)
    qed
  qed
  have "Max (set lengths) = max_of_lengths lengths"
    by (rule Max_eqI) (simp_all add: mem max_of_lengths_ge)
  then show ?thesis by simp
qed

lemma length_pad_sentence: "length s \<le> n \<Longrightarrow> length (pad_sentence pad n s) = n"
  by (simp add: pad_sentence_def)

lemma pad_batch_rows:
  "row \<in> set (pad_batch pad sentences) \<Longrightarrow> length row = max_of_lengths (map length sentences)"
  by (auto simp: pad_batch_def length_pad_sentence max_of_lengths_ge)

lemma length_pad_batch: "length (pad_batch pad sentences) = length sentences"
  by (simp add: pad_batch_def)

lemma valid_words_only_rows:
  "row \<in> set (valid_words_only dl rows) \<Longrightarrow> \<exists>r \<in> set rows. length row = length r"
  by (auto simp: valid_words_only_def)

lemma valid_words_only_nth:
  "i < length rows \<Longrightarrow> j < length (rows ! i) \<Longrightarrow>
     valid_words_only dl rows ! i ! j
       = (if rows ! i ! j < frequent_vocab_size dl then rows ! i ! j else unk_id dl)"
  by (simp add: valid_words_only_def)

text \<open>What a returned batch is made of.\<close>

lemma get_batch_Inr:
  assumes "get_batch dl set_name indexes = Inr b"
  obtains dialogs where "data dl set_name = Some dialogs"
    and "\<forall>i \<in> set indexes. i < length dialogs"
    and "post_length b = map (\<lambda>i. length (fst (dialogs ! i))) indexes"
    and "resp_length b = map (\<lambda>i. length (snd (dialogs ! i))) indexes"
    and "post_allvocabs b = pad_batch (pad_id dl) (map (\<lambda>i. fst (dialogs ! i)) indexes)"
    and "resp_allvocabs b = pad_batch (pad_id dl) (map (\<lambda>i. snd (dialogs ! i)) indexes)"
    and "post b = valid_words_only dl (post_allvocabs b)"
    and "resp b = valid_words_only dl (resp_allvocabs b)"
proof (cases "data dl set_name")
  case None
  with assms show ?thesis by (simp add: get_batch_def)
next
  case (Some dialogs)
  with assms have ok: "list_all (\<lambda>i. i < length dialogs) indexes"
    by (auto simp: get_batch_def split: if_splits)
  with assms Some have b: "b =
      \<lparr>post_length = map length (map (\<lambda>i. fst (dialogs ! i)) indexes),
       post = valid_words_only dl (pad_batch (pad_id dl) (map (\<lambda>i. fst (dialogs ! i)) indexes)),
       post_allvocabs = pad_batch (pad_id dl) (map (\<lambda>i. fst (dialogs ! i)) indexes),
       resp_length = map length (map (\<lambda>i. snd (dialogs ! i)) indexes),
       resp = valid_words_only dl (pad_batch (pad_id dl) (map (\<lambda>i. snd (dialogs ! i)) indexes)),
       resp_allvocabs = pad_batch (pad_id dl) (map (\<lambda>i. snd (dialogs ! i)) indexes)\<rparr>"
    by (simp add: get_batch_def Let_def)
  show ?thesis
  proof (rule that [of dialogs])
    show "data dl set_name = Some dialogs" by (rule Some)
    show "\<forall>i \<in> set indexes. i < length dialogs" using ok by (simp add: list_all_iff)
  qed (simp_all add: b comp_def)
qed

lemma get_batch_row_lengths:
  assumes "get_batch dl set_name indexes = Inr b"
  shows "\<forall>row \<in> set (post_allvocabs b). length row = max_of_lengths (post_length b)"
    and "\<forall>row \<in> set (resp_allvocabs b). length row = max_of_lengths (resp_length b)"
    and "\<forall>row \<in> set (post b). length row = max_of_lengths (post_length b)"
    and "\<forall>row \<in> set (resp b). length row = max_of_lengths (resp_length b)"
proof -
  from assms obtain dialogs where
    pl: "post_length b = map (\<lambda>i. length (fst (dialogs ! i))) indexes"
    and rl: "resp_length b = map (\<lambda>i. length (snd (dialogs ! i))) indexes"
    and pa: "post_allvocabs b = pad_batch (pad_id dl) (map (\<lambda>i. fst (dialogs ! i)) indexes)"
    and ra: "resp_allvocabs b = pad_batch (pad_id dl) (map (\<lambda>i. snd (dialogs ! i)) indexes)"
    and p: "post b = valid_words_only dl (post_allvocabs b)"
    and r: "resp b = valid_words_only dl (resp_allvocabs b)"
    by (rule get_batch_Inr)
  show pall: "\<forall>row \<in> set (post_allvocabs b). length row = max_of_lengths (post_length b)"
    using pad_batch_rows [of _ "pad_id dl" "map (\<lambda>i. fst (dialogs ! i)) indexes"]
    by (simp add: pa pl comp_def)
  show rall: "\<forall>row \<in> set (resp_allvocabs b). length row = max_of_lengths (resp_length b)"
    using pad_batch_rows [of _ "pad_id dl" "map (\<lambda>i. snd (dialogs ! i)) indexes"]
    by (simp add: ra rl comp_def)
  show "\<forall>row \<in> set (post b). length row = max_of_lengths (post_length b)"
    using pall valid_words_only_rows [of _ dl "post_allvocabs b"] by (auto simp: p)
  show "\<forall>row \<in> set (resp b). length row = max_of_lengths (resp_length b)"
    using rall valid_words_only_rows [of _ dl "resp_allvocabs b"] by (auto simp: r)
qed

lemma get_batch_sizes:
  assumes "get_batch dl set_name indexes = Inr b"
  shows "length (post_length b) = length indexes \<and> length (resp_length b) = length indexes
    \<and> length (post b) = length indexes \<and> length (post_allvocabs b) = length indexes
    \<and> length (resp b) = length indexes \<and> length (resp_allvocabs b) = length indexes"
proof -
  from assms obtain dialogs where
    "post_length b = map (\<lambda>i. length (fst (dialogs ! i))) indexes"
    "resp_length b = map (\<lambda>i. length (snd (dialogs ! i))) indexes"
    "post_allvocabs b = pad_batch (pad_id dl) (map (\<lambda>i. fst (dialogs ! i)) indexes)"
    "resp_allvocabs b = pad_batch (pad_id dl) (map (\<lambda>i. snd (dialogs ! i)) indexes)"
    "post b = valid_words_only dl (post_allvocabs b)"
    "resp b = valid_words_only dl (resp_allvocabs b)"
    by (rule get_batch_Inr)
  then show ?thesis by (simp add: length_pad_batch valid_words_only_def)
qed

text \<open>
  Claim C1. In a batch that \<open>get_batch\<close> returns, each of the four 2-d arrays has one row
  for every index, and all rows of an array have one length: the maximum of the sentence
  lengths of the batch (of the posts for \<open>post\<close> and \<open>post_allvocabs\<close>, of the responses
  for \<open>resp\<close> and \<open>resp_allvocabs\<close>). The two length arrays have one entry for every
  index: the length of that sentence.
\<close>

theorem get_batch_uniform_rows:
  assumes "get_batch dl set_name indexes = Inr b"
  shows "length (post_length b) = length indexes \<and> length (resp_length b) = length indexes
    \<and> length (post b) = length indexes \<and> length (post_allvocabs b) = length indexes
    \<and> length (resp b) = length indexes \<and> length (resp_allvocabs b) = length indexes
    \<and> (\<forall>row \<in> set (post b). length row = max_of_lengths (post_length b))
    \<and> (\<forall>row \<in> set (post_allvocabs b). length row = max_of_lengths (post_length b))
    \<and> (\<forall>row \<in> set (resp b). length row = max_of_lengths (resp_length b))
    \<and> (\<forall>row \<in> set (resp_allvocabs b). length row = max_of_lengths (resp_length b))
    \<and> (indexes \<noteq> [] \<longrightarrow>
          max_of_lengths (post_length b) = Max (set (post_length b))
          \<and> max_of_lengths (resp_length b) = Max (set (resp_length b)))
    \<and> (\<exists>dialogs. data dl set_name = Some dialogs
          \<and> post_length b = map (\<lambda>i. length (fst (dialogs ! i))) indexes
          \<and> resp_length b = map (\<lambda>i. length (snd (dialogs ! i))) indexes)"
proof -
  note sizes = get_batch_sizes [OF assms]
  note rows = get_batch_row_lengths [OF assms]
  have maxes: "max_of_lengths (post_length b) = Max (set (post_length b))
      \<and> max_of_lengths (resp_length b) = Max (set (resp_length b))" if "indexes \<noteq> []"
  proof -
    from that sizes have "post_length b \<noteq> []" "resp_length b \<noteq> []" by auto
    then show ?thesis by (simp add: max_of_lengths_Max)
  qed
  have lens: "\<exists>dialogs. data dl set_name = Some dialogs
      \<and> post_length b = map (\<lambda>i. length (fst (dialogs ! i))) indexes
      \<and> resp_length b = map (\<lambda>i. length (snd (dialogs ! i))) indexes"
    using assms by (rule get_batch_Inr) blast
  from sizes rows maxes lens show ?thesis by blast
qed

theorem get_batch_uniform_rows_witness:
  "get_batch example_dataloader ''train'' [0, 1] =
     Inr \<lparr>post_length = [5, 3],
          post = [[2, 5, 6, 1, 3], [2, 7, 3, 0, 0]],
          post_allvocabs = [[2, 5, 6, 10, 3], [2, 7, 3, 0, 0]],
          resp_length = [5, 3],
          resp = [[2, 8, 1, 1, 3], [2, 7, 3, 0, 0]],
          resp_allvocabs = [[2, 8, 9, 10, 3], [2, 7, 3, 0, 0]]\<rparr>
   \<and> max_of_lengths [5, 3] = 5"
proof -
  have b: "get_batch example_dataloader ''train'' [0, 1] =
     Inr \<lparr>post_length = [5, 3],
          post = [[2, 5, 6, 1, 3], [2, 7, 3, 0, 0]],
          post_allvocabs = [[2, 5, 6, 10, 3], [2, 7, 3, 0, 0]],
          resp_length = [5, 3],
          resp = [[2, 8, 1, 1, 3], [2, 7, 3, 0, 0]],
          resp_allvocabs = [[2, 8, 9, 10, 3], [2, 7, 3, 0, 0]]\<rparr>"
    by (simp add: get_batch_def example_dataloader_def pad_batch_def pad_sentence_def
        max_of_lengths_def valid_words_only_def numeral_eq_Suc)
  from get_batch_uniform_rows [OF b] have "max_of_lengths [5, 3] = Max (set [5, 3::nat])"
    by simp
  with b show ?thesis by simp
qed

lemma replace_unk_shape:
  "length (replace_unk sentences unk_token target_token) = length sentences
   \<and> (\<forall>i < length sentences.
        length (replace_unk sentences unk_token target_token ! i) = length (sentences ! i)
        \<and> (\<forall>j < length (sentences ! i).
              replace_unk sentences unk_token target_token ! i ! j
                = (if sentences ! i ! j = unk_token then target_token else sentences ! i ! j)))"
  by (simp add: replace_unk_def)

lemma get_batch_unk:
  assumes "get_batch dl set_name indexes = Inr b"
  shows "\<forall>i < length indexes. \<forall>j < max_of_lengths (post_length b).
      post b ! i ! j = (if post_allvocabs b ! i ! j < frequent_vocab_size dl
                        then post_allvocabs b ! i ! j else unk_id dl)"
    and "\<forall>i < length indexes. \<forall>j < max_of_lengths (resp_length b).
      resp b ! i ! j = (if resp_allvocabs b ! i ! j < frequent_vocab_size dl
                        then resp_allvocabs b ! i ! j else unk_id dl)"
proof -
  note sizes = get_batch_sizes [OF assms]
  note rows = get_batch_row_lengths [OF assms]
  from assms have p: "post b = valid_words_only dl (post_allvocabs b)"
    and r: "resp b = valid_words_only dl (resp_allvocabs b)"
    by (rule get_batch_Inr, simp)+
  show "\<forall>i < length indexes. \<forall>j < max_of_lengths (post_length b).
      post b ! i ! j = (if post_allvocabs b ! i ! j < frequent_vocab_size dl
                        then post_allvocabs b ! i ! j else unk_id dl)"
  proof (intro allI impI)
    fix i j assume i: "i < length indexes" and j: "j < max_of_lengths (post_length b)"
    from i sizes have i': "i < length (post_allvocabs b)" by simp
    then have "post_allvocabs b ! i \<in> set (post_allvocabs b)" by simp
    with rows(1) j have "j < length (post_allvocabs b ! i)" by simp
    with i' show "post b ! i ! j = (if post_allvocabs b ! i ! j < frequent_vocab_size dl
        then post_allvocabs b ! i ! j else unk_id dl)"
      unfolding p by (rule valid_words_only_nth)
  qed
  show "\<forall>i < length indexes. \<forall>j < max_of_lengths (resp_length b).
      resp b ! i ! j = (if resp_allvocabs b ! i ! j < frequent_vocab_size dl
                        then resp_allvocabs b ! i ! j else unk_id dl)"
  proof (intro allI impI)
    fix i j assume i: "i < length indexes" and j: "j < max_of_lengths (resp_length b)"
    from i sizes have i': "i < length (resp_allvocabs b)" by simp
    then have "resp_allvocabs b ! i \<in> set (resp_allvocabs b)" by simp
    with rows(2) j have "j < length (resp_allvocabs b ! i)" by simp
    with i' show "resp b ! i ! j = (if resp_allvocabs b ! i ! j < frequent_vocab_size dl
        then resp_allvocabs b ! i ! j else unk_id dl)"
      unfolding r by (rule valid_words_only_nth)
  qed
qed

text \<open>
  Claim C2. \<open>replace_unk\<close> returns a list of the same shape (as many sentences, each as
  long as before) in which every token equal to \<open>unk_token\<close> has become \<open>target_token\<close>
  and every other token is unchanged; without a third argument the target is \<open>-1\<close>.
  In a batch that \<open>get_batch\<close> returns, every entry of \<open>post\<close> and \<open>resp\<close> is the entry of
  \<open>post_allvocabs\<close> and \<open>resp_allvocabs\<close> when that is a valid word, and the one id
  \<open>unk_id\<close> otherwise.
\<close>

theorem replace_unk_single_token:
  "length (replace_unk sentences unk_token target_token) = length sentences
   \<and> (\<forall>i < length sentences.
        length (replace_unk sentences unk_token target_token ! i) = length (sentences ! i)
        \<and> (\<forall>j < length (sentences ! i).
              replace_unk sentences unk_token target_token ! i ! j
                = (if sentences ! i ! j = unk_token then target_token else sentences ! i ! j)))
   \<and> replace_unk_default int_sentences int_unk = replace_unk int_sentences int_unk (- 1)
   \<and> (get_batch dl set_name indexes = Inr b \<longrightarrow>
        (\<forall>i < length indexes. \<forall>j < max_of_lengths (post_length b).
           post b ! i ! j = (if post_allvocabs b ! i ! j < frequent_vocab_size dl
                             then post_allvocabs b ! i ! j else unk_id dl))
        \<and> (\<forall>i < length indexes. \<forall>j < max_of_lengths (resp_length b).
           resp b ! i ! j = (if resp_allvocabs b ! i ! j < frequent_vocab_size dl
                             then resp_allvocabs b ! i ! j else unk_id dl)))"
  using replace_unk_shape [of sentences unk_token target_token]
    get_batch_unk [of dl set_name indexes b]
  by (simp add: replace_unk_default_def)

theorem replace_unk_single_token_witness:
  "replace_unk [[2, 5, 1, 3], [], [1, 1::int]] 1 0 = [[2, 5, 0, 3], [], [0, 0]]
   \<and> replace_unk_default [[2, 5, 1, 3], [1]] 1 = [[2, 5, - 1, 3], [- 1]]
   \<and> (\<exists>b. get_batch example_dataloader ''train'' [0] = Inr b
        \<and> post_allvocabs b ! 0 ! 3 = 10 \<and> post b ! 0 ! 3 = unk_id example_dataloader)"
proof -
  have b: "get_batch example_dataloader ''train'' [0] =
     Inr \<lparr>post_length = [5], post = [[2, 5, 6, 1, 3]], post_allvocabs = [[2, 5, 6, 10, 3]],
          resp_length = [5], resp = [[2, 8, 1, 1, 3]], resp_allvocabs = [[2, 8, 9, 10, 3]]\<rparr>"
    by (simp add: get_batch_def example_dataloader_def pad_batch_def pad_sentence_def
        max_of_lengths_def valid_words_only_def numeral_eq_Suc)
  have u: "unk_id example_dataloader = 1" by (simp add: example_dataloader_def)
  from replace_unk_single_token [of "[[2, 5, 1, 3], [], [1, 1::int]]" 1 0 "[[2, 5, 1, 3], [1]]" 1
      example_dataloader "''train''" "[0]"] b u
  show ?thesis by (simp add: replace_unk_def)
qed

section \<open>Properties of the construction\<close>

text \<open>
  Claim C6. \<^verbatim>\<open>SingleTurnDialog.__init__\<close> raises a ValueError when \<open>pretrained\<close> is
  \<^verbatim>\<open>"gpt2"\<close> and the tokenizer is not a \<^verbatim>\<open>PretrainedTokenizer\<close>, and a ValueError for
  every \<open>pretrained\<close> other than \<^verbatim>\<open>None\<close> and \<^verbatim>\<open>"gpt2"\<close>. In both cases the object is
  left as it was but for the attribute \<^verbatim>\<open>_pretrained\<close>, which holds the argument: nothing
  of \<^verbatim>\<open>LanguageProcessing\<close> has run.
\<close>

theorem init_pretrained_value_errors:
  "(pretrained = Some ''gpt2'' \<and> \<not> is_PretrainedTokenizer tokenizer \<longrightarrow>
      SingleTurnDialog_init env self file_id tokenizer max_sent_length convert_to_lower_letter
          min_frequent_vocab_times min_rare_vocab_times pretrained
        = Inl (ValueError ''tokenize should be loaded first if you want a gpt2 dataloader'',
               self\<lparr>pretrained_attr := Some pretrained\<rparr>))
   \<and> (\<forall>p. pretrained = Some p \<and> p \<noteq> ''gpt2'' \<longrightarrow>
      SingleTurnDialog_init env self file_id tokenizer max_sent_length convert_to_lower_letter
          min_frequent_vocab_times min_rare_vocab_times pretrained
        = Inl (ValueError (''No pretrained name '' @ p),
               self\<lparr>pretrained_attr := Some pretrained\<rparr>))"
  by (simp add: SingleTurnDialog_init_def)

theorem init_pretrained_value_errors_witness:
  "SingleTurnDialog_init example_environment
       \<lparr>pretrained_attr = None, language_processing = []\<rparr>
       ''resources://OpenSubtitles'' (TokenizerName ''nltk'') (Some 50) (Some False)
       (Some 10) (Some 0) (Some ''gpt2'')
     = Inl (ValueError ''tokenize should be loaded first if you want a gpt2 dataloader'',
            \<lparr>pretrained_attr = Some (Some ''gpt2''), language_processing = []\<rparr>)
   \<and> SingleTurnDialog_init example_environment
       \<lparr>pretrained_attr = None, language_processing = []\<rparr>
       ''resources://OpenSubtitles'' (PretrainedTokenizer ''gpt2-tokenizer'') (Some 50)
       (Some False) (Some 10) (Some 0) (Some ''bert'')
     = Inl (ValueError ''No pretrained name bert'',
            \<lparr>pretrained_attr = Some (Some ''bert''), language_processing = []\<rparr>)"
  using init_pretrained_value_errors [of "Some ''gpt2''" "TokenizerName ''nltk''"
      example_environment "\<lparr>pretrained_attr = None, language_processing = []\<rparr>"
      "''resources://OpenSubtitles''" "Some 50" "Some False" "Some 10" "Some 0"]
    init_pretrained_value_errors [of "Some ''bert''" "PretrainedTokenizer ''gpt2-tokenizer''"
      example_environment "\<lparr>pretrained_attr = None, language_processing = []\<rparr>"
      "''resources://OpenSubtitles''" "Some 50" "Some False" "Some 10" "Some 0"]
  by simp

section \<open>Properties of the vocabulary tiers\<close>

text \<open>
  Claim C7. Every token of the corpus is in exactly one of the three tiers. A token is
  frequent when it appears at least \<open>min_frequent_vocab_times\<close> times in the training
  set; of the others, a token is rare when it appears at least \<open>min_rare_vocab_times\<close>
  times in the whole dataset; all other tokens are unknown.
\<close>

theorem vocab_tiers_partition:
  fixes training_set other_sets :: "'a list" and mf mr :: int
  defines "F \<equiv> set (frequent_vocab mf training_set other_sets)"
    and "R \<equiv> set (rare_vocab mf mr training_set other_sets)"
    and "U \<equiv> set (unknown_vocab mf mr training_set other_sets)"
  shows "F \<union> R \<union> U = set (training_set @ other_sets)
    \<and> F \<inter> R = {} \<and> F \<inter> U = {} \<and> R \<inter> U = {}
    \<and> (\<forall>token \<in> set (training_set @ other_sets).
          (token \<in> F \<longleftrightarrow> mf \<le> int (count_list training_set token))
          \<and> (token \<in> R \<longleftrightarrow> \<not> mf \<le> int (count_list training_set token)
                \<and> mr \<le> int (count_list (training_set @ other_sets) token))
          \<and> (token \<in> U \<longleftrightarrow> \<not> mf \<le> int (count_list training_set token)
                \<and> \<not> mr \<le> int (count_list (training_set @ other_sets) token)))
    \<and> distinct (frequent_vocab mf training_set other_sets)
    \<and> distinct (rare_vocab mf mr training_set other_sets)
    \<and> distinct (unknown_vocab mf mr training_set other_sets)"
  unfolding F_def R_def U_def frequent_vocab_def rare_vocab_def unknown_vocab_def
  by (auto simp: is_rare_def is_frequent_def)

theorem vocab_tiers_partition_witness:
  "frequent_vocab 2 [''how'', ''are'', ''you'', ''how'', ''you''] [''fine'', ''how'', ''am'', ''am'']
     = [''you'', ''how'']
   \<and> rare_vocab 2 1 [''how'', ''are'', ''you'', ''how'', ''you''] [''fine'', ''how'', ''am'', ''am'']
     = [''are'', ''fine'', ''am'']
   \<and> unknown_vocab 2 3 [''how'', ''are'', ''you'', ''how'', ''you''] [''fine'', ''how'', ''am'', ''am'']
     = [''are'', ''fine'', ''am'']"
proof -
  let ?train = "[''how'', ''are'', ''you'', ''how'', ''you'']"
  let ?others = "[''fine'', ''how'', ''am'', ''am'']"
  have f: "frequent_vocab 2 ?train ?others = [''you'', ''how'']"
    by (simp add: frequent_vocab_def is_frequent_def)
  have r: "rare_vocab 2 1 ?train ?others = [''are'', ''fine'', ''am'']"
    by (simp add: rare_vocab_def is_rare_def is_frequent_def)
  have u: "unknown_vocab 2 3 ?train ?others = [''are'', ''fine'', ''am'']"
    by (simp add: unknown_vocab_def is_rare_def is_frequent_def)
  from vocab_tiers_partition [where mf = 2 and mr = 1 and training_set = ?train
      and other_sets = ?others]
  have "set (frequent_vocab 2 ?train ?others) \<inter> set (rare_vocab 2 1 ?train ?others) = {}"
    by blast
  with f r u show ?thesis by simp
qed

section \<open>Properties of the command line configuration\<close>

lemma join_words_no_space:
  "join_words [''123''] = ''123'' \<and> join_words [''123'', ''456''] = ''123 456''"
  by simp

text \<open>
  Claim C8. Before any value is set, \<open>config_load\<close> gives \<^verbatim>\<open>None\<close> for every key. After
  \<^verbatim>\<open>config set <key> <words...>\<close> is dispatched, \<open>config_load\<close> gives the words joined
  by single spaces for that key, also after a \<^verbatim>\<open>config show\<close>, and a later
  \<^verbatim>\<open>config set\<close> replaces the value: \<^verbatim>\<open>123\<close> gives \<^verbatim>\<open>123\<close>, and \<^verbatim>\<open>123 456\<close> gives
  \<^verbatim>\<open>123 456\<close>.
\<close>

theorem config_round_trip:
  "config_load empty_config key = None
   \<and> (words \<noteq> [] \<longrightarrow>
        config_load (dispatch ''config'' (''set'' # key # words) cfg) key
          = Some (join_words words)
        \<and> config_load (dispatch ''config'' [''show'', key]
            (dispatch ''config'' (''set'' # key # words) cfg)) key = Some (join_words words))
   \<and> join_words [''123''] = ''123''
   \<and> join_words [''123'', ''456''] = ''123 456''"
proof -
  have "config_load (dispatch ''config'' (''set'' # key # words) cfg) key
      = Some (join_words words)" if "words \<noteq> []"
    using that by (cases words) (simp_all add: config_load_def)
  then show ?thesis by (simp add: config_load_def empty_config_def)
qed

theorem config_round_trip_witness:
  "config_load empty_config ''test_variable'' = None
   \<and> config_load (dispatch ''config'' [''show'', ''test_variable'']
        (dispatch ''config'' [''set'', ''test_variable'', ''123''] empty_config))
        ''test_variable'' = Some ''123''
   \<and> config_load (dispatch ''config'' [''set'', ''test_variable'', ''123'', ''456'']
        (dispatch ''config'' [''set'', ''test_variable'', ''123''] empty_config))
        ''test_variable'' = Some ''123 456''"
  using config_round_trip [of "''test_variable''" "[''123'']" empty_config]
    config_round_trip [of "''test_variable''" "[''123'', ''456'']"
      "dispatch ''config'' [''set'', ''test_variable'', ''123''] empty_config"]
  by simp

section \<open>Properties of the metaclass\<close>

subsection \<open>Namespaces\<close>

lemma map_of_dict_set: "map_of (dict_set k v d) k' = (if k' = k then Some v else map_of d k')"
  by (induction d) auto

lemma keys_dict_set_old: "map_of d k = Some v' \<Longrightarrow> map fst (dict_set k v d) = map fst d"
  by (induction d) (auto split: if_splits)

lemma keys_dict_set_new: "map_of d k = None \<Longrightarrow> map fst (dict_set k v d) = map fst d @ [k]"
  by (induction d) (auto split: if_splits)

lemma distinct_dict_set: "distinct (map fst d) \<Longrightarrow> distinct (map fst (dict_set k v d))"
proof (cases "map_of d k")
  case None
  assume "distinct (map fst d)"
  moreover from None have "k \<notin> fst ` set d" by (simp add: map_of_eq_None_iff)
  ultimately show ?thesis using None by (simp add: keys_dict_set_new)
next
  case (Some v')
  assume "distinct (map fst d)"
  with Some show ?thesis by (simp add: keys_dict_set_old)
qed

lemma dict_set_same: "map_of d k = Some v \<Longrightarrow> dict_set k v d = d"
  by (induction d) (auto split: if_splits)

lemma map_of_distinct_mem: "distinct (map fst d) \<Longrightarrow> (k, v) \<in> set d \<Longrightarrow> map_of d k = Some v"
  by simp

subsection \<open>Substitution\<close>

lemma join_chars: "join_items (map (\<lambda>c. PStr [c]) s) = Inr s"
  by (induction s) simp_all

lemma re_sub_items_no_brace:
  "CHR ''{'' \<notin> set s \<Longrightarrow> re_sub_items lc repl s = Inr (map (\<lambda>c. PStr [c]) s)"
  by (induction s) auto

lemma re_sub_no_brace: "CHR ''{'' \<notin> set s \<Longrightarrow> re_sub lc repl s = Inr s"
  by (simp add: re_sub_def re_sub_items_no_brace join_chars)

lemma substitute_fixed: "step doc = Inr doc \<Longrightarrow> substitute step doc = Some (Inr doc)"
  by (subst substitute.simps) simp

lemma match_name_capital: "match_name False s = None \<Longrightarrow> match_name True s = None"
  by (auto simp: match_name_def Let_def simp del: dropWhile_eq_Nil_conv
      split: list.splits if_splits)

lemma match_placeholder_capital:
  assumes "match_placeholder False s = None"
  shows "match_placeholder True s = None"
proof (cases "dropWhile is_word_char s")
  case Nil
  with assms have "match_name False s = None"
    by (simp add: match_placeholder_def del: dropWhile_eq_Nil_conv)
  then have "match_name True s = None" by (rule match_name_capital)
  with Nil show ?thesis by (simp add: match_placeholder_def del: dropWhile_eq_Nil_conv)
next
  case (Cons d after_dot)
  show ?thesis
  proof (cases "d = CHR ''.'' \<and> takeWhile is_word_char s \<noteq> []")
    case False
    with assms Cons have "match_name False s = None"
      by (auto simp: match_placeholder_def)
    then have "match_name True s = None" by (rule match_name_capital)
    with False Cons show ?thesis by (auto simp: match_placeholder_def)
  next
    case True
    show ?thesis
    proof (cases "match_name False after_dot")
      case None
      with assms Cons True have "match_name False s = None"
        by (simp add: match_placeholder_def)
      then have outer: "match_name True s = None" by (rule match_name_capital)
      from None have "match_name True after_dot = None" by (rule match_name_capital)
      with outer Cons True show ?thesis by (simp add: match_placeholder_def)
    next
      case (Some p)
      with assms Cons True show ?thesis
        by (cases p) (simp add: match_placeholder_def)
    qed
  qed
qed

lemma match_placeholder_absent:
  "match_placeholder False s = None \<Longrightarrow> match_placeholder lc s = None"
  by (cases lc) (simp_all add: match_placeholder_capital)

lemma re_sub_items_no_placeholder:
  "\<not> has_placeholder s \<Longrightarrow> re_sub_items lc repl s = Inr (map (\<lambda>c. PStr [c]) s)"
proof (induction s)
  case Nil
  then show ?case by simp
next
  case (Cons c cs)
  from Cons.prems have rest: "\<not> has_placeholder cs" by simp
  have "match_placeholder False cs = None" if "c = CHR ''{''"
    using Cons.prems that by (cases "match_placeholder False cs") simp_all
  then have "(if c = CHR ''{'' then match_placeholder lc cs else None) = None"
    by (simp add: match_placeholder_absent)
  with Cons.IH [OF rest] show ?case by simp
qed

lemma re_sub_no_placeholder: "\<not> has_placeholder s \<Longrightarrow> re_sub lc repl s = Inr s"
  by (simp add: re_sub_def re_sub_items_no_placeholder join_chars)

lemma substitute_no_placeholder:
  "\<not> has_placeholder doc \<Longrightarrow> substitute (re_sub lc repl) doc = Some (Inr doc)"
  by (simp add: substitute_fixed re_sub_no_placeholder)

lemma no_brace_no_placeholder: "CHR ''{'' \<notin> set s \<Longrightarrow> \<not> has_placeholder s"
  by (induction s) auto

lemma str_doc_no_brace: "CHR ''{'' \<notin> set str_doc"
  by (simp add: str_doc_def)

lemma str_doc_nonempty: "str_doc \<noteq> []"
  by (simp add: str_doc_def)

lemma re_sub_str_doc: "re_sub lc repl str_doc = Inr str_doc"
  by (rule re_sub_no_brace) (rule str_doc_no_brace)

lemma match_placeholder_close: "match_placeholder lc (CHR ''}'' # s) = None"
  by (simp add: match_placeholder_def match_name_def is_word_char_def is_name_char_def
      is_capital_def)

lemma dict_doc_nonempty: "dict_doc \<noteq> []"
  by (simp add: dict_doc_def)

lemma re_sub_dict_doc: "re_sub lc repl dict_doc = Inr dict_doc"
  by (simp add: dict_doc_def re_sub_def match_placeholder_close)

lemma const_of_PNone: "const_of v = PNone \<longleftrightarrow> v = PNone"
  by (cases v) simp_all

lemma join_items_const_of: "join_items (map const_of items) = join_items items"
proof (induction items)
  case Nil
  then show ?case by simp
next
  case (Cons v items)
  then show ?case by (cases v) simp_all
qed

lemma re_sub_items_const_of:
  assumes "\<And>g. map_sum id const_of (r g) = map_sum id const_of (r' g)"
  shows "map_sum id (map const_of) (re_sub_items lc r s)
       = map_sum id (map const_of) (re_sub_items lc r' s)"
  using assms
proof (induction lc r s rule: re_sub_items.induct)
  case (1 lc repl)
  then show ?case by simp
next
  case (2 lc repl c cs)
  note rel = "2.prems"
  show ?case
  proof (cases "if c = CHR ''{'' then match_placeholder lc cs else None")
    case None
    with "2.IH"(1) [OF None rel] show ?thesis
      by (cases "re_sub_items lc repl cs"; cases "re_sub_items lc r' cs") auto
  next
    case (Some p)
    obtain g after where p: "p = (g, after)" by (cases p)
    show ?thesis
    proof (cases "repl g")
      case (Inl e)
      with rel [of g] have "r' g = Inl e" by (cases "r' g") simp_all
      with Inl Some p show ?thesis by simp
    next
      case (Inr v)
      with rel [of g] obtain v' where v': "r' g = Inr v'" and vv: "const_of v = const_of v'"
        by (cases "r' g") simp_all
      from vv have none: "v = PNone \<longleftrightarrow> v' = PNone"
        by (metis const_of_PNone)
      have IH: "map_sum id (map const_of) (re_sub_items lc repl after)
          = map_sum id (map const_of) (re_sub_items lc r' after)"
        using "2.IH"(2) [OF Some p [symmetric] Inr rel] .
      show ?thesis
        using IH Some p Inr v' vv none
        by (cases "re_sub_items lc repl after"; cases "re_sub_items lc r' after") auto
    qed
  qed
qed

lemma re_sub_const_of:
  assumes "\<And>g. map_sum id const_of (r g) = map_sum id const_of (r' g)"
  shows "re_sub lc r s = re_sub lc r' s"
proof -
  have eq: "map_sum id (map const_of) (re_sub_items lc r s)
       = map_sum id (map const_of) (re_sub_items lc r' s)"
    using assms by (rule re_sub_items_const_of)
  show ?thesis
  proof (cases "re_sub_items lc r s")
    case (Inl e)
    with eq have "re_sub_items lc r' s = Inl e" by (cases "re_sub_items lc r' s") simp_all
    with Inl show ?thesis by (simp add: re_sub_def)
  next
    case (Inr items)
    with eq obtain items' where i': "re_sub_items lc r' s = Inr items'"
      and m: "map const_of items = map const_of items'"
      by (cases "re_sub_items lc r' s") simp_all
    have "join_items items = join_items (map const_of items)"
      by (simp add: join_items_const_of)
    also have "\<dots> = join_items items'" by (simp add: m join_items_const_of)
    finally show ?thesis using Inr i' by (simp add: re_sub_def)
  qed
qed

lemma same_consts_refl: "same_consts c c"
  by (simp add: same_consts_def)

lemma same_consts_trans: "same_consts a b \<Longrightarrow> same_consts b c \<Longrightarrow> same_consts a c"
  by (simp add: same_consts_def)

lemma same_consts_sym: "same_consts a b \<Longrightarrow> same_consts b a"
  by (simp add: same_consts_def)

lemma same_consts_dict_set:
  "map_of c k = Some v \<Longrightarrow> const_of v = const_of v' \<Longrightarrow> same_consts c (dict_set k v' c)"
  by (simp add: same_consts_def map_of_dict_set)

lemma find_attr_same_consts:
  assumes "same_consts c c'"
  shows "map_sum id const_of (find_attr n b c g) = map_sum id const_of (find_attr n b c' g)"
proof -
  have look: "map_option const_of (map_of c k) = map_option const_of (map_of c' k)" for k
    using assms by (simp add: same_consts_def)
  show ?thesis
  proof (cases "CHR ''.'' \<in> set g")
    case False
    with look [of g] show ?thesis
      by (cases "map_of c g"; cases "map_of c' g") (simp_all add: find_attr_def)
  next
    case True
    show ?thesis
    proof (cases "\<exists>base_name a. split_dot g = [base_name, a]")
      case False
      then have "find_attr n b c g = Inl (ValueError ''too many values to unpack (expected 2)'')"
        "find_attr n b c' g = Inl (ValueError ''too many values to unpack (expected 2)'')"
        using True by (auto simp: find_attr_def split: list.splits)
      then show ?thesis by simp
    next
      case True
      then obtain base_name a where sp: "split_dot g = [base_name, a]" by blast
      show ?thesis
      proof (cases "n = base_name")
        case True
        with sp \<open>CHR ''.'' \<in> set g\<close> look [of a] show ?thesis
          by (cases "map_of c a"; cases "map_of c' a") (simp_all add: find_attr_def find_base_def)
      next
        case False
        with sp \<open>CHR ''.'' \<in> set g\<close> show ?thesis
          by (simp add: find_attr_def find_base_def split: option.splits)
      qed
    qed
  qed
qed

lemma replace_in_same_consts:
  assumes "same_consts c c'"
  shows "map_sum id const_of (replace_in subj n b c g) = map_sum id const_of (replace_in subj n b c' g)"
proof -
  from assms have eq: "map_sum id const_of (find_attr n b c g) = map_sum id const_of (find_attr n b c' g)"
    by (rule find_attr_same_consts)
  show ?thesis
  proof (cases "find_attr n b c g")
    case (Inl e)
    with eq have "find_attr n b c' g = Inl e" by (cases "find_attr n b c' g") simp_all
    with Inl show ?thesis by (simp add: replace_in_def)
  next
    case (Inr v)
    with eq obtain v' where "find_attr n b c' g = Inr v'" "const_of v = const_of v'"
      by (cases "find_attr n b c' g") simp_all
    with Inr show ?thesis by (simp add: replace_in_def)
  qed
qed

lemma re_sub_replace_for_same_consts:
  "same_consts c c' \<Longrightarrow>
     re_sub lc (replace_for n b c attr) = re_sub lc (replace_for n b c' attr)"
  by (rule ext, rule re_sub_const_of) (simp add: replace_for_def replace_in_same_consts)

lemma attr_docs_same_consts:
  "same_consts c c' \<Longrightarrow> attr_docs n b c attr doc = attr_docs n b c' attr doc"
  unfolding attr_docs_def by (simp add: re_sub_replace_for_same_consts [of c c'] cong: option.case_cong sum.case_cong)


subsection \<open>The class docstring\<close>

lemma inherited_doc_first:
  assumes "inherited_doc cs = Inr r"
  shows "r = (case find has_meta_doc cs of
                None \<Rightarrow> None
              | Some c \<Rightarrow> lookup_mro (mro c) ''META_DOC'')"
    and "\<And>v. r = Some v \<Longrightarrow> truthy v"
  using assms
proof (induction cs)
  case Nil
  { case 1 then show ?case by simp }
  { case 2 then show ?case by simp }
next
  case (Cons c cs)
  { case 1
    then show ?case
      using Cons.IH(1)
      by (auto simp: has_meta_doc_def class_getattr_def split: option.splits if_splits) }
  { case 2
    then show ?case
      using Cons.IH(2)
      by (auto simp: class_getattr_def split: option.splits if_splits) }
qed

lemma has_own_doc_start: "has_own_doc c \<Longrightarrow> \<exists>v. start_doc b c = Some v \<and> map_of c ''__doc__'' = Some v \<and> truthy v"
  by (auto simp: has_own_doc_def start_doc_def split: option.splits)

lemma inherit_class_doc_start:
  assumes "inherit_class_doc bases c = Inr c0"
  shows "c0 = (case start_doc bases c of
                 None \<Rightarrow> c
               | Some v \<Rightarrow> if truthy v then dict_set ''__doc__'' v c else c)"
proof (cases "has_own_doc c")
  case True
  then obtain v where v: "start_doc bases c = Some v" "map_of c ''__doc__'' = Some v" "truthy v"
    using has_own_doc_start by blast
  from True assms have "c0 = c" by (simp add: inherit_class_doc_def)
  with v show ?thesis by (simp add: dict_set_same)
next
  case False
  with assms obtain r where r: "inherited_doc (bases_mro bases) = Inr r"
    and c0: "c0 = (case r of None \<Rightarrow> c | Some v \<Rightarrow> dict_set ''__doc__'' v c)"
    by (auto simp: inherit_class_doc_def split: sum.splits option.splits)
  note first = inherited_doc_first [OF r]
  show ?thesis
  proof (cases "find has_meta_doc (bases_mro bases)")
    case None
    with first(1) have "r = None" by simp
    moreover from None False have "start_doc bases c = map_of c ''__doc__''"
      by (simp add: start_doc_def)
    ultimately show ?thesis using c0 False
      by (auto simp: has_own_doc_def split: option.splits)
  next
    case (Some cl)
    then have "has_meta_doc cl" by (auto dest: find_Some_iff [THEN iffD1])
    then obtain v where v: "lookup_mro (mro cl) ''META_DOC'' = Some v" "truthy v"
      by (auto simp: has_meta_doc_def class_getattr_def split: option.splits)
    with first(1) Some have "r = Some v" by simp
    moreover from Some False v have "start_doc bases c = Some v" by (simp add: start_doc_def)
    ultimately show ?thesis using c0 v by simp
  qed
qed

text \<open>The loop on the class docstring rewrites the entry \<^verbatim>\<open>__doc__\<close> only, by a string.\<close>

lemma class_doc_loop_frame:
  assumes ret: "class_doc_loop lc n b c = Some (Inr c')"
  shows "(\<exists>d. map_of c' ''__doc__'' = Some (PStr d))
    \<and> map fst c' = map fst c
    \<and> (\<forall>k. k \<noteq> ''__doc__'' \<longrightarrow> map_of c' k = map_of c k)"
proof -
  let ?P = "\<lambda>(lc::bool) (n::string) (b::pytype list) c (r::error + namespace).
      \<forall>c'. r = Inr c' \<longrightarrow> (\<exists>d. map_of c' ''__doc__'' = Some (PStr d))
        \<and> map fst c' = map fst c
        \<and> (\<forall>k. k \<noteq> ''__doc__'' \<longrightarrow> map_of c' k = map_of c k)"
  have "?P lc n b c (Inr c')"
  proof (rule class_doc_loop.raw_induct [where P = ?P, OF _ ret])
    fix f lc n b c r
    assume IH: "\<And>lc n b c r. f lc n b c = Some r \<Longrightarrow> ?P lc n b c r"
      and eq: "(case map_of c ''__doc__'' of
           None \<Rightarrow> Some (Inl (TypeError ''expected string or bytes-like object''))
         | Some PNone \<Rightarrow> Some (Inl (TypeError ''expected string or bytes-like object''))
         | Some (PStr d) \<Rightarrow>
             (case re_sub lc (replace_for_clsdict n b c) d of
                Inl e \<Rightarrow> Some (Inl e)
              | Inr doc \<Rightarrow>
                  if doc = d then Some (Inr c)
                  else f lc n b (dict_set ''__doc__'' (PStr doc) c))
         | Some _ \<Rightarrow> Some (Inl (TypeError ''expected string or bytes-like object''))) = Some r"
    show "?P lc n b c r"
    proof (intro allI impI)
      fix c' assume r: "r = Inr c'"
      from eq r obtain d where d: "map_of c ''__doc__'' = Some (PStr d)"
        by (auto split: option.splits pyval.splits)
      with eq r obtain doc where doc: "re_sub lc (replace_for_clsdict n b c) d = Inr doc"
        by (auto split: sum.splits)
      show "(\<exists>d. map_of c' ''__doc__'' = Some (PStr d))
        \<and> map fst c' = map fst c
        \<and> (\<forall>k. k \<noteq> ''__doc__'' \<longrightarrow> map_of c' k = map_of c k)"
      proof (cases "doc = d")
        case True
        with eq r d doc have "c' = c" by simp
        with d show ?thesis by simp
      next
        case False
        with eq r d doc have "f lc n b (dict_set ''__doc__'' (PStr doc) c) = Some (Inr c')"
          by simp
        from IH [OF this] d show ?thesis
          by (simp add: keys_dict_set_old map_of_dict_set)
      qed
    qed
  qed
  then show ?thesis by simp
qed

lemma class_doc_loop_no_placeholder:
  assumes "map_of c ''__doc__'' = Some (PStr d)" "\<not> has_placeholder d"
  shows "class_doc_loop lc n b c = Some (Inr c)"
  using assms by (subst class_doc_loop.simps) (simp add: re_sub_no_placeholder)

text \<open>The loop on the class docstring keeps the entries under the other names, in place.\<close>

lemma other_entries_dict_set:
  "is_written_name k \<Longrightarrow> other_entries (dict_set k v d) = other_entries d"
  by (induction d) (auto simp: other_entries_def split: if_splits)

lemma class_doc_loop_other_entries:
  assumes ret: "class_doc_loop lc n b c = Some (Inr c')"
  shows "other_entries c' = other_entries c"
proof -
  let ?P = "\<lambda>(lc::bool) (n::string) (b::pytype list) c (r::error + namespace).
      \<forall>c'. r = Inr c' \<longrightarrow> other_entries c' = other_entries c"
  have "?P lc n b c (Inr c')"
  proof (rule class_doc_loop.raw_induct [where P = ?P, OF _ ret])
    fix f lc n b c r
    assume IH: "\<And>lc n b c r. f lc n b c = Some r \<Longrightarrow> ?P lc n b c r"
      and eq: "(case map_of c ''__doc__'' of
           None \<Rightarrow> Some (Inl (TypeError ''expected string or bytes-like object''))
         | Some PNone \<Rightarrow> Some (Inl (TypeError ''expected string or bytes-like object''))
         | Some (PStr d) \<Rightarrow>
             (case re_sub lc (replace_for_clsdict n b c) d of
                Inl e \<Rightarrow> Some (Inl e)
              | Inr doc \<Rightarrow>
                  if doc = d then Some (Inr c)
                  else f lc n b (dict_set ''__doc__'' (PStr doc) c))
         | Some _ \<Rightarrow> Some (Inl (TypeError ''expected string or bytes-like object''))) = Some r"
    show "?P lc n b c r"
    proof (intro allI impI)
      fix c' assume r: "r = Inr c'"
      from eq r obtain d where d: "map_of c ''__doc__'' = Some (PStr d)"
        by (auto split: option.splits pyval.splits)
      with eq r obtain doc where doc: "re_sub lc (replace_for_clsdict n b c) d = Inr doc"
        by (auto split: sum.splits)
      show "other_entries c' = other_entries c"
      proof (cases "doc = d")
        case True
        with eq r d doc show ?thesis by simp
      next
        case False
        with eq r d doc have "f lc n b (dict_set ''__doc__'' (PStr doc) c) = Some (Inr c')"
          by simp
        from IH [OF this] show ?thesis
          by (simp add: other_entries_dict_set is_written_name_def)
      qed
    qed
  qed
  then show ?thesis by simp
qed

lemma substitute_class_doc_frame:
  assumes "substitute_class_doc lc n b c = Some (Inr c')"
  shows "map fst c' = map fst c"
    and "\<And>k. k \<noteq> ''__doc__'' \<Longrightarrow> map_of c' k = map_of c k"
    and "has_own_doc c \<Longrightarrow> \<exists>d. map_of c' ''__doc__'' = Some (PStr d)"
    and "\<not> has_own_doc c \<Longrightarrow> c' = c"
  using assms class_doc_loop_frame [of lc n b c c']
  by (auto simp: substitute_class_doc_def split: if_splits)


lemma falsy_not_method: "\<not> truthy v \<Longrightarrow> \<not> is_method_or_property v"
  by (cases v) (simp_all add: is_method_or_property_def)

lemma class_doc_stage_frame:
  assumes "class_doc_stage n b c0 = Some (Inr c2)"
  shows "map fst c2 = map fst (save_meta_doc c0)"
    and "\<And>k. k \<noteq> ''__doc__'' \<Longrightarrow> k \<noteq> ''META_DOC'' \<Longrightarrow> map_of c2 k = map_of c0 k"
    and "has_own_doc c0 \<Longrightarrow>
           \<exists>d1 d2. map_of c2 ''META_DOC'' = Some (PStr d1) \<and> map_of c2 ''__doc__'' = Some (PStr d2)"
    and "\<not> has_own_doc c0 \<Longrightarrow>
           map_of c2 ''__doc__'' = map_of c0 ''__doc__''
           \<and> map_of c2 ''META_DOC''
               = Some (case map_of c0 ''__doc__'' of None \<Rightarrow> PNone | Some v \<Rightarrow> v)"
proof -
  from assms obtain c1 where c1: "substitute_class_doc True n b c0 = Some (Inr c1)"
    and c2: "substitute_class_doc False n b (save_meta_doc c1) = Some (Inr c2)"
    by (auto simp: class_doc_stage_def split: option.splits sum.splits)
  note f1 = substitute_class_doc_frame [OF c1]
  note f2 = substitute_class_doc_frame [OF c2]
  have keys1: "map fst (save_meta_doc c1) = map fst (save_meta_doc c0)"
  proof (cases "map_of c0 ''META_DOC''")
    case None
    then have "map_of c1 ''META_DOC'' = None" using f1(2) [of "''META_DOC''"] by simp
    with None f1(1) show ?thesis by (simp add: save_meta_doc_def keys_dict_set_new)
  next
    case (Some v)
    then have "map_of c1 ''META_DOC'' = Some v" using f1(2) [of "''META_DOC''"] by simp
    with Some f1(1) show ?thesis by (simp add: save_meta_doc_def keys_dict_set_old)
  qed
  show "map fst c2 = map fst (save_meta_doc c0)" using f2(1) keys1 by simp
  show "map_of c2 k = map_of c0 k" if "k \<noteq> ''__doc__''" "k \<noteq> ''META_DOC''" for k
    using that f1(2) [of k] f2(2) [of k] by (simp add: save_meta_doc_def map_of_dict_set)
  have doc1: "map_of (save_meta_doc c1) ''__doc__'' = map_of c1 ''__doc__''"
    by (simp add: save_meta_doc_def map_of_dict_set)
  have meta2: "map_of c2 ''META_DOC''
      = Some (case map_of c1 ''__doc__'' of None \<Rightarrow> PNone | Some v \<Rightarrow> v)"
    using f2(2) [of "''META_DOC''"] by (simp add: save_meta_doc_def map_of_dict_set)
  show "\<exists>d1 d2. map_of c2 ''META_DOC'' = Some (PStr d1) \<and> map_of c2 ''__doc__'' = Some (PStr d2)"
    if "has_own_doc c0"
  proof -
    from f1(3) [OF that] obtain d1 where d1: "map_of c1 ''__doc__'' = Some (PStr d1)" by blast
    with meta2 have m: "map_of c2 ''META_DOC'' = Some (PStr d1)" by simp
    show ?thesis
    proof (cases "has_own_doc (save_meta_doc c1)")
      case True
      from f2(3) [OF True] m show ?thesis by blast
    next
      case False
      from f2(4) [OF False] doc1 d1 m show ?thesis by simp
    qed
  qed
  show "map_of c2 ''__doc__'' = map_of c0 ''__doc__''
      \<and> map_of c2 ''META_DOC''
        = Some (case map_of c0 ''__doc__'' of None \<Rightarrow> PNone | Some v \<Rightarrow> v)"
    if "\<not> has_own_doc c0"
  proof -
    from f1(4) [OF that] have e: "c1 = c0" .
    with that doc1 have "\<not> has_own_doc (save_meta_doc c1)" by (simp add: has_own_doc_def)
    from f2(4) [OF this] e meta2 doc1 show ?thesis by simp
  qed
qed

lemma class_doc_stage_other_entries:
  assumes "class_doc_stage n b c0 = Some (Inr c2)"
  shows "other_entries c2 = other_entries c0"
proof -
  from assms obtain c1 where c1: "substitute_class_doc True n b c0 = Some (Inr c1)"
    and c2: "substitute_class_doc False n b (save_meta_doc c1) = Some (Inr c2)"
    by (auto simp: class_doc_stage_def split: option.splits sum.splits)
  from c1 have "other_entries c1 = other_entries c0"
    by (auto simp: substitute_class_doc_def split: if_splits dest: class_doc_loop_other_entries)
  moreover from c2 have "other_entries c2 = other_entries (save_meta_doc c1)"
    by (auto simp: substitute_class_doc_def split: if_splits dest: class_doc_loop_other_entries)
  moreover have "other_entries (save_meta_doc c1) = other_entries c1"
    by (simp add: save_meta_doc_def other_entries_dict_set is_written_name_def)
  ultimately show ?thesis by simp
qed

lemma class_doc_stage_no_placeholder:
  assumes d: "map_of c0 ''__doc__'' = Some (PStr d)" and ne: "d \<noteq> []"
    and nb: "\<not> has_placeholder d"
  shows "class_doc_stage n b c0 = Some (Inr (save_meta_doc c0))"
proof -
  from d ne have own: "has_own_doc c0" by (simp add: has_own_doc_def)
  have d': "map_of (save_meta_doc c0) ''__doc__'' = Some (PStr d)"
    using d by (simp add: save_meta_doc_def map_of_dict_set)
  with ne have own': "has_own_doc (save_meta_doc c0)" by (simp add: has_own_doc_def)
  have "substitute_class_doc True n b c0 = Some (Inr c0)"
    using own class_doc_loop_no_placeholder [OF d nb] by (simp add: substitute_class_doc_def)
  moreover have "substitute_class_doc False n b (save_meta_doc c0) = Some (Inr (save_meta_doc c0))"
    using own' class_doc_loop_no_placeholder [OF d' nb] by (simp add: substitute_class_doc_def)
  ultimately show ?thesis by (simp add: class_doc_stage_def)
qed

subsection \<open>The loop over the attributes\<close>

lemma set_doc_result:
  assumes "set_doc a v d2 heap c = Inr (heap1, c1)"
  shows "heap1 = (case doc_target v of
                    None \<Rightarrow> heap
                  | Some r \<Rightarrow> heap(r := (if d2 = [] then None else Some d2)))"
    and "\<not> is_property v \<Longrightarrow> c1 = c"
    and "is_property v \<Longrightarrow> map_of c a = Some v \<Longrightarrow>
           c1 = dict_set a (entry_after heap v (if d2 = [] then None else Some d2)) c"
  using assms
  by (cases v; auto simp: set_doc_def Let_def dict_set_same split: if_splits)+

lemma meta_doc_set_PDict:
  "map_of c ''META_DOC_FOR_ATTRIBUTES'' = Some (PDict m) \<Longrightarrow>
     meta_doc_set a d c = dict_set ''META_DOC_FOR_ATTRIBUTES'' (PDict (dict_set a d m)) c"
  by (simp add: meta_doc_set_def)

lemma same_consts_meta_doc_set: "same_consts c (meta_doc_set a d c)"
  by (auto simp: meta_doc_set_def same_consts_def map_of_dict_set split: option.splits pyval.splits)

lemma process_attribute_docs:
  assumes "process_attribute n b a v heap c = Some (Inr (heap1, c1))"
  shows "\<exists>doc d1 d2. attribute_doc b a (own_doc heap v) = Inr doc
      \<and> attr_docs n b c a doc = Some (Inr (d1, d2))
      \<and> set_doc a v d2 heap (meta_doc_set a d1 c) = Inr (heap1, c1)"
proof -
  from assms obtain doc where doc: "attribute_doc b a (own_doc heap v) = Inr doc"
    by (auto simp: process_attribute_def split: sum.splits)
  with assms obtain d1 where d1: "substitute (re_sub True (replace_for n b c a)) doc = Some (Inr d1)"
    by (auto simp: process_attribute_def split: sum.splits option.splits)
  with assms doc obtain d2 where
    d2: "substitute (re_sub False (replace_for n b (meta_doc_set a d1 c) a)) d1 = Some (Inr d2)"
    and c': "set_doc a v d2 heap (meta_doc_set a d1 c) = Inr (heap1, c1)"
    by (auto simp: process_attribute_def Let_def split: sum.splits option.splits)
  have "re_sub False (replace_for n b (meta_doc_set a d1 c) a) = re_sub False (replace_for n b c a)"
    by (rule re_sub_replace_for_same_consts [OF same_consts_sym [OF same_consts_meta_doc_set]])
  with d2 have "substitute (re_sub False (replace_for n b c a)) d1 = Some (Inr d2)" by simp
  with d1 have "attr_docs n b c a doc = Some (Inr (d1, d2))" by (simp add: attr_docs_def)
  with doc c' show ?thesis by blast
qed

lemma const_of_entry_after: "is_property v \<Longrightarrow> const_of (entry_after heap v d) = const_of v"
  by (cases v) (simp_all add: new_property_def)

text \<open>
  One turn of the loop: the entry of \<^verbatim>\<open>META_DOC_FOR_ATTRIBUTES\<close> and the docstring of the
  object are the two substitutions of the docstring that the turn starts from; the store
  changes at the object of the turn only, and the namespace at its entry only.
\<close>

lemma process_attribute_step:
  assumes pr: "process_attribute n b a v heap c = Some (Inr (heap1, c1))"
    and md: "map_of c ''META_DOC_FOR_ATTRIBUTES'' = Some (PDict m)"
    and ent': "is_property v \<longrightarrow> map_of c a = Some v"
  shows "\<exists>doc d1 d2.
      attribute_doc b a (own_doc heap v) = Inr doc \<and> attr_docs n b c a doc = Some (Inr (d1, d2))
      \<and> map_of c1 ''META_DOC_FOR_ATTRIBUTES'' = Some (PDict (dict_set a d1 m))
      \<and> same_consts c c1
      \<and> (\<forall>k. k \<noteq> a \<longrightarrow> k \<noteq> ''META_DOC_FOR_ATTRIBUTES'' \<longrightarrow> map_of c1 k = map_of c k)
      \<and> heap1 = (case doc_target v of
                   None \<Rightarrow> heap
                 | Some r \<Rightarrow> heap(r := (if d2 = [] then None else Some d2)))
      \<and> (is_property v \<longrightarrow>
           map_of c1 a = Some (entry_after heap v (if d2 = [] then None else Some d2)))
      \<and> (\<not> is_property v \<longrightarrow> a \<noteq> ''META_DOC_FOR_ATTRIBUTES'' \<longrightarrow>
           map_of c1 a = map_of c a)"
proof -
  from ent' have ent: "is_property v \<Longrightarrow> map_of c a = Some v" by simp
  from process_attribute_docs [OF pr] obtain doc d1 d2 where
    doc: "attribute_doc b a (own_doc heap v) = Inr doc"
    and docs: "attr_docs n b c a doc = Some (Inr (d1, d2))"
    and sd: "set_doc a v d2 heap (meta_doc_set a d1 c) = Inr (heap1, c1)"
    by blast
  define cm where "cm = meta_doc_set a d1 c"
  have cm: "cm = dict_set ''META_DOC_FOR_ATTRIBUTES'' (PDict (dict_set a d1 m)) c"
    unfolding cm_def using md by (rule meta_doc_set_PDict)
  have cm_md: "map_of cm ''META_DOC_FOR_ATTRIBUTES'' = Some (PDict (dict_set a d1 m))"
    by (simp add: cm map_of_dict_set)
  have cm_frame: "map_of cm k = map_of c k" if "k \<noteq> ''META_DOC_FOR_ATTRIBUTES''" for k
    using that by (simp add: cm map_of_dict_set)
  have cm_same: "same_consts c cm"
    unfolding cm_def by (rule same_consts_meta_doc_set)
  from sd have sd': "set_doc a v d2 heap cm = Inr (heap1, c1)" by (simp add: cm_def)
  note res = set_doc_result [OF sd']
  show ?thesis
  proof (cases "is_property v")
    case False
    from res(2) [OF False] have "c1 = cm" .
    with False doc docs cm_md cm_same cm_frame res(1) show ?thesis
      by (intro exI [of _ doc] exI [of _ d1] exI [of _ d2]) simp
  next
    case True
    from ent [OF True] md have ne: "a \<noteq> ''META_DOC_FOR_ATTRIBUTES''"
      using True by (cases v) auto
    from ent [OF True] ne have ca: "map_of cm a = Some v" by (simp add: cm_frame)
    let ?v' = "entry_after heap v (if d2 = [] then None else Some d2)"
    from res(3) [OF True ca] have c1: "c1 = dict_set a ?v' cm" .
    have "same_consts cm c1"
      unfolding c1 using ca by (rule same_consts_dict_set) (simp add: const_of_entry_after [OF True])
    with cm_same have same: "same_consts c c1" by (rule same_consts_trans)
    have f3: "map_of c1 ''META_DOC_FOR_ATTRIBUTES'' = Some (PDict (dict_set a d1 m))"
      using ne cm_md by (simp add: c1 map_of_dict_set)
    have f6: "\<forall>k. k \<noteq> a \<longrightarrow> k \<noteq> ''META_DOC_FOR_ATTRIBUTES'' \<longrightarrow> map_of c1 k = map_of c k"
      by (simp add: c1 map_of_dict_set cm_frame)
    have f7: "map_of c1 a = Some ?v'" by (simp add: c1 map_of_dict_set)
    from doc docs f3 same f6 f7 True res(1) show ?thesis
      by (intro exI [of _ doc] exI [of _ d1] exI [of _ d2]) simp
  qed
qed

lemma attributes_loop_append:
  "attributes_loop n b (xs @ ys) heap c =
     (case attributes_loop n b xs heap c of
        None \<Rightarrow> None
      | Some (Inl e) \<Rightarrow> Some (Inl e)
      | Some (Inr (heap1, c1)) \<Rightarrow> attributes_loop n b ys heap1 c1)"
  by (induction xs arbitrary: heap c) (auto split: option.splits sum.splits)

lemma doc_targets_Cons:
  "set (doc_targets ((a, v) # items)) = set_option (doc_target v) \<union> set (doc_targets items)"
  by (cases "doc_target v") (simp_all add: doc_targets_def List.map_filter_simps)

text \<open>
  What a run of the loop over some items leaves as it was: the constants of the namespace,
  the docstrings of the objects that are no item of the run, the entries of
  \<^verbatim>\<open>META_DOC_FOR_ATTRIBUTES\<close> under the other names, and every namespace entry that is no
  property of the run.
\<close>

lemma attributes_loop_frame:
  assumes "attributes_loop n b items heap c = Some (Inr (heap', r))"
    and "distinct (map fst items)"
    and "map_of c ''META_DOC_FOR_ATTRIBUTES'' = Some (PDict m)"
    and "\<forall>a v. (a, v) \<in> set items \<longrightarrow> is_property v \<longrightarrow> map_of c a = Some v"
  shows "same_consts c r
    \<and> (\<forall>x. x \<notin> set (doc_targets items) \<longrightarrow> heap' x = heap x)
    \<and> (\<exists>m'. map_of r ''META_DOC_FOR_ATTRIBUTES'' = Some (PDict m')
          \<and> (\<forall>a. a \<notin> fst ` set items \<longrightarrow> map_of m' a = map_of m a))
    \<and> (\<forall>k. k \<noteq> ''META_DOC_FOR_ATTRIBUTES''
            \<and> (\<forall>v. (k, v) \<in> set items \<longrightarrow> \<not> is_property v)
          \<longrightarrow> map_of r k = map_of c k)"
  using assms
proof (induction items arbitrary: heap c m)
  case Nil
  then show ?case by (simp add: same_consts_refl)
next
  case (Cons item items)
  obtain a v where item: "item = (a, v)" by (cases item)
  from Cons.prems(1) item obtain heap1 c1 where
    pr: "process_attribute n b a v heap c = Some (Inr (heap1, c1))"
    and rest: "attributes_loop n b items heap1 c1 = Some (Inr (heap', r))"
    by (auto split: option.splits sum.splits)
  from Cons.prems(2) item have dist: "distinct (map fst items)" and fresh: "a \<notin> fst ` set items"
    by simp_all
  note entries = Cons.prems(4) [rule_format]
  have ent: "is_property v \<longrightarrow> map_of c a = Some v"
    using entries [of a v] item by simp
  from process_attribute_step [OF pr Cons.prems(3) ent] obtain doc d1 d2 where
    step: "attribute_doc b a (own_doc heap v) = Inr doc \<and> attr_docs n b c a doc = Some (Inr (d1, d2))
      \<and> map_of c1 ''META_DOC_FOR_ATTRIBUTES'' = Some (PDict (dict_set a d1 m))
      \<and> same_consts c c1
      \<and> (\<forall>k. k \<noteq> a \<longrightarrow> k \<noteq> ''META_DOC_FOR_ATTRIBUTES'' \<longrightarrow> map_of c1 k = map_of c k)
      \<and> heap1 = (case doc_target v of
                   None \<Rightarrow> heap
                 | Some r \<Rightarrow> heap(r := (if d2 = [] then None else Some d2)))
      \<and> (is_property v \<longrightarrow>
           map_of c1 a = Some (entry_after heap v (if d2 = [] then None else Some d2)))
      \<and> (\<not> is_property v \<longrightarrow> a \<noteq> ''META_DOC_FOR_ATTRIBUTES'' \<longrightarrow>
           map_of c1 a = map_of c a)"
    by (elim exE) (rule that)
  from step have md1: "map_of c1 ''META_DOC_FOR_ATTRIBUTES'' = Some (PDict (dict_set a d1 m))"
    and same1: "same_consts c c1"
    and heap1: "heap1 = (case doc_target v of
                   None \<Rightarrow> heap
                 | Some r \<Rightarrow> heap(r := (if d2 = [] then None else Some d2)))"
    by simp_all
  from step have frame1: "\<And>k. k \<noteq> a \<Longrightarrow> k \<noteq> ''META_DOC_FOR_ATTRIBUTES'' \<Longrightarrow> map_of c1 k = map_of c k"
    by simp
  from step have other1: "\<not> is_property v \<Longrightarrow> a \<noteq> ''META_DOC_FOR_ATTRIBUTES'' \<Longrightarrow>
           map_of c1 a = map_of c a"
    by simp
  have property_key: "k \<noteq> ''META_DOC_FOR_ATTRIBUTES''"
    if "(k, w) \<in> set (item # items)" "is_property w" for k w
  proof
    assume "k = ''META_DOC_FOR_ATTRIBUTES''"
    with entries [OF that] Cons.prems(3) that(2) show False by (cases w) auto
  qed
  have ent1: "\<forall>a' v'. (a', v') \<in> set items \<longrightarrow> is_property v' \<longrightarrow> map_of c1 a' = Some v'"
  proof (intro allI impI)
    fix a' v' assume that: "(a', v') \<in> set items" "is_property v'"
    from that(1) fresh have "a' \<noteq> a" by force
    moreover from property_key [of a' v'] that have "a' \<noteq> ''META_DOC_FOR_ATTRIBUTES''" by simp
    ultimately have "map_of c1 a' = map_of c a'" by (rule frame1)
    with entries [of a' v'] that show "map_of c1 a' = Some v'" by simp
  qed
  note IH = Cons.IH [OF rest dist md1 ent1]
  note same = IH [THEN conjunct1]
  note heap_frame = IH [THEN conjunct2, THEN conjunct1, rule_format]
  note frame' = IH [THEN conjunct2, THEN conjunct2, THEN conjunct2]
  from IH [THEN conjunct2, THEN conjunct2, THEN conjunct1] obtain m' where
    md: "map_of r ''META_DOC_FOR_ATTRIBUTES'' = Some (PDict m')"
    and old': "\<forall>k. k \<notin> fst ` set items \<longrightarrow> map_of m' k = map_of (dict_set a d1 m) k"
    by (elim exE conjE)
  from frame' have frame: "\<And>k. k \<noteq> ''META_DOC_FOR_ATTRIBUTES'' \<Longrightarrow>
        (\<forall>v. (k, v) \<in> set items \<longrightarrow> \<not> is_property v) \<Longrightarrow> map_of r k = map_of c1 k"
    by simp
  have g1: "same_consts c r" using same1 same by (rule same_consts_trans)
  have g2: "\<forall>x. x \<notin> set (doc_targets (item # items)) \<longrightarrow> heap' x = heap x"
  proof (intro allI impI)
    fix x assume x: "x \<notin> set (doc_targets (item # items))"
    then have "x \<notin> set (doc_targets items)" and "doc_target v \<noteq> Some x"
      by (auto simp: item doc_targets_Cons)
    with heap_frame [of x] heap1 show "heap' x = heap x"
      by (auto split: option.splits)
  qed
  have g3: "\<forall>k. k \<notin> fst ` set (item # items) \<longrightarrow> map_of m' k = map_of m k"
    using old' item by (auto simp: map_of_dict_set)
  have g5: "map_of r k = map_of c k"
    if k: "k \<noteq> ''META_DOC_FOR_ATTRIBUTES''"
      and nm: "\<forall>w. (k, w) \<in> set (item # items) \<longrightarrow> \<not> is_property w" for k
  proof -
    from nm have "\<forall>w. (k, w) \<in> set items \<longrightarrow> \<not> is_property w" by simp
    from frame [OF k this] have r: "map_of r k = map_of c1 k" .
    show ?thesis
    proof (cases "k = a")
      case True
      with nm item have "\<not> is_property v" by simp
      from other1 [OF this] k True r show ?thesis by simp
    next
      case False
      from frame1 [OF False k] r show ?thesis by simp
    qed
  qed
  have h5: "\<forall>k. k \<noteq> ''META_DOC_FOR_ATTRIBUTES''
            \<and> (\<forall>v. (k, v) \<in> set (item # items) \<longrightarrow> \<not> is_property v)
          \<longrightarrow> map_of r k = map_of c k"
    using g5 by (intro allI impI) (elim conjE)
  have h3: "\<exists>m'. map_of r ''META_DOC_FOR_ATTRIBUTES'' = Some (PDict m')
          \<and> (\<forall>a. a \<notin> fst ` set (item # items) \<longrightarrow> map_of m' a = map_of m a)"
    using md g3 by (intro exI [of _ m'] conjI)
  from g1 g2 h3 h5 show ?case by (intro conjI)
qed

text \<open>
  The turn of one item of the loop over the whole namespace: \<open>heap_then\<close> is the store
  when the turn comes, after the items before it.
\<close>

lemma attributes_loop_turn:
  assumes loop: "attributes_loop n b c3 heap c3 = Some (Inr (heap', r))"
    and dist: "distinct (map fst c3)"
    and md: "map_of c3 ''META_DOC_FOR_ATTRIBUTES'' = Some (PDict [])"
    and split: "c3 = earlier @ (a, v) # later"
    and meth: "is_method_or_property v"
  shows "\<exists>heap_then c_then doc d1 d2 m c_after.
      attributes_loop n b earlier heap c3 = Some (Inr (heap_then, c_then))
      \<and> (\<forall>x. x \<notin> set (doc_targets earlier) \<longrightarrow> heap_then x = heap x)
      \<and> attribute_doc b a (own_doc heap_then v) = Inr doc
      \<and> attr_docs n b c3 a doc = Some (Inr (d1, d2))
      \<and> map_of r ''META_DOC_FOR_ATTRIBUTES'' = Some (PDict m)
      \<and> map_of m a = Some d1
      \<and> map_of r a = Some (entry_after heap_then v (if d2 = [] then None else Some d2))
      \<and> attributes_loop n b (earlier @ [(a, v)]) heap c3
          = Some (Inr ((case doc_target v of
                          None \<Rightarrow> heap_then
                        | Some x \<Rightarrow> heap_then(x := (if d2 = [] then None else Some d2))),
                       c_after))
      \<and> (\<forall>x. doc_target v = Some x \<and> x \<notin> set (doc_targets later) \<longrightarrow>
            heap' x = (if d2 = [] then None else Some d2))"
proof -
  have value3: "map_of c3 k = Some w" if "(k, w) \<in> set c3" for k w
    using dist that by (simp add: map_of_distinct_mem)
  from split have in3: "(a, v) \<in> set c3" by simp
  have a_meta: "a \<noteq> ''META_DOC_FOR_ATTRIBUTES''"
  proof
    assume "a = ''META_DOC_FOR_ATTRIBUTES''"
    with value3 [OF in3] md have "v = PDict []" by simp
    with meth show False by (simp add: is_method_or_property_def)
  qed
  from dist split have d_earlier: "distinct (map fst earlier)" and d_later: "distinct (map fst later)"
    and a_earlier: "a \<notin> fst ` set earlier" and a_later: "a \<notin> fst ` set later"
    and disjoint: "fst ` set earlier \<inter> fst ` set later = {}"
    by auto
  from loop split obtain heap_then c_then where
    run_earlier: "attributes_loop n b earlier heap c3 = Some (Inr (heap_then, c_then))"
    and run_rest: "attributes_loop n b ((a, v) # later) heap_then c_then = Some (Inr (heap', r))"
    by (auto simp: attributes_loop_append split: option.splits sum.splits)
  from run_rest obtain heap1 c1 where
    pr: "process_attribute n b a v heap_then c_then = Some (Inr (heap1, c1))"
    and run_later: "attributes_loop n b later heap1 c1 = Some (Inr (heap', r))"
    by (auto split: option.splits sum.splits)
  have ent_earlier: "\<forall>k w. (k, w) \<in> set earlier \<longrightarrow> is_property w \<longrightarrow> map_of c3 k = Some w"
    using value3 split by simp
  note fr_earlier = attributes_loop_frame [OF run_earlier d_earlier md ent_earlier]
  note same_earlier = fr_earlier [THEN conjunct1]
  note heap_earlier = fr_earlier [THEN conjunct2, THEN conjunct1]
  from fr_earlier [THEN conjunct2, THEN conjunct2, THEN conjunct1] obtain m_then where
    md_then: "map_of c_then ''META_DOC_FOR_ATTRIBUTES'' = Some (PDict m_then)"
    by (elim exE conjE)
  from fr_earlier [THEN conjunct2, THEN conjunct2, THEN conjunct2]
  have keep_earlier: "\<And>k. k \<noteq> ''META_DOC_FOR_ATTRIBUTES'' \<Longrightarrow>
      (\<forall>w. (k, w) \<in> set earlier \<longrightarrow> \<not> is_property w) \<Longrightarrow> map_of c_then k = map_of c3 k"
    by simp
  have then_a: "map_of c_then a = Some v"
  proof -
    have "\<forall>w. (a, w) \<in> set earlier \<longrightarrow> \<not> is_property w" using a_earlier by force
    from keep_earlier [OF a_meta this] value3 [OF in3] show ?thesis by simp
  qed
  then have ent_a: "is_property v \<longrightarrow> map_of c_then a = Some v" by simp
  from process_attribute_step [OF pr md_then ent_a] obtain doc d1 d2 where
    step: "attribute_doc b a (own_doc heap_then v) = Inr doc
      \<and> attr_docs n b c_then a doc = Some (Inr (d1, d2))
      \<and> map_of c1 ''META_DOC_FOR_ATTRIBUTES'' = Some (PDict (dict_set a d1 m_then))
      \<and> same_consts c_then c1
      \<and> (\<forall>k. k \<noteq> a \<longrightarrow> k \<noteq> ''META_DOC_FOR_ATTRIBUTES'' \<longrightarrow> map_of c1 k = map_of c_then k)
      \<and> heap1 = (case doc_target v of
                   None \<Rightarrow> heap_then
                 | Some r \<Rightarrow> heap_then(r := (if d2 = [] then None else Some d2)))
      \<and> (is_property v \<longrightarrow>
           map_of c1 a = Some (entry_after heap_then v (if d2 = [] then None else Some d2)))
      \<and> (\<not> is_property v \<longrightarrow> a \<noteq> ''META_DOC_FOR_ATTRIBUTES'' \<longrightarrow>
           map_of c1 a = map_of c_then a)"
    by (elim exE) (rule that)
  from step have doc: "attribute_doc b a (own_doc heap_then v) = Inr doc"
    and docs_then: "attr_docs n b c_then a doc = Some (Inr (d1, d2))"
    and md1: "map_of c1 ''META_DOC_FOR_ATTRIBUTES'' = Some (PDict (dict_set a d1 m_then))"
    and heap1: "heap1 = (case doc_target v of
                   None \<Rightarrow> heap_then
                 | Some r \<Rightarrow> heap_then(r := (if d2 = [] then None else Some d2)))"
    by simp_all
  from step have frame1: "\<And>k. k \<noteq> a \<Longrightarrow> k \<noteq> ''META_DOC_FOR_ATTRIBUTES'' \<Longrightarrow>
      map_of c1 k = map_of c_then k"
    by simp
  from step have entry1: "map_of c1 a = Some (entry_after heap_then v (if d2 = [] then None else Some d2))"
    using then_a a_meta by (cases "is_property v") (cases v; simp)+
  have docs: "attr_docs n b c3 a doc = Some (Inr (d1, d2))"
    using docs_then attr_docs_same_consts [OF same_earlier, of n b a doc] by simp
  have ent_later: "\<forall>k w. (k, w) \<in> set later \<longrightarrow> is_property w \<longrightarrow> map_of c1 k = Some w"
  proof (intro allI impI)
    fix k w assume that: "(k, w) \<in> set later" "is_property w"
    from that(1) split have in_c3: "(k, w) \<in> set c3" by simp
    from that(1) a_later have ka: "k \<noteq> a" by force
    have km: "k \<noteq> ''META_DOC_FOR_ATTRIBUTES''"
    proof
      assume "k = ''META_DOC_FOR_ATTRIBUTES''"
      with value3 [OF in_c3] md have "w = PDict []" by simp
      with that(2) show False by simp
    qed
    from that(1) disjoint have "k \<notin> fst ` set earlier" by force
    then have "\<forall>u. (k, u) \<in> set earlier \<longrightarrow> \<not> is_property u" by force
    from keep_earlier [OF km this] frame1 [OF ka km] value3 [OF in_c3]
    show "map_of c1 k = Some w" by simp
  qed
  note fr_later = attributes_loop_frame [OF run_later d_later md1 ent_later]
  note heap_later = fr_later [THEN conjunct2, THEN conjunct1, rule_format]
  from fr_later [THEN conjunct2, THEN conjunct2, THEN conjunct1] obtain m where
    m: "map_of r ''META_DOC_FOR_ATTRIBUTES'' = Some (PDict m)"
    and old: "\<forall>k. k \<notin> fst ` set later \<longrightarrow> map_of m k = map_of (dict_set a d1 m_then) k"
    by (elim exE conjE)
  from old a_later have ma: "map_of m a = Some d1" by (simp add: map_of_dict_set)
  from fr_later [THEN conjunct2, THEN conjunct2, THEN conjunct2]
  have keep_later: "\<And>k. k \<noteq> ''META_DOC_FOR_ATTRIBUTES'' \<Longrightarrow>
      (\<forall>w. (k, w) \<in> set later \<longrightarrow> \<not> is_property w) \<Longrightarrow> map_of r k = map_of c1 k"
    by simp
  have ra: "map_of r a = Some (entry_after heap_then v (if d2 = [] then None else Some d2))"
  proof -
    have "\<forall>w. (a, w) \<in> set later \<longrightarrow> \<not> is_property w" using a_later by force
    from keep_later [OF a_meta this] entry1 show ?thesis by simp
  qed
  have final: "\<forall>x. doc_target v = Some x \<and> x \<notin> set (doc_targets later) \<longrightarrow>
      heap' x = (if d2 = [] then None else Some d2)"
  proof (intro allI impI)
    fix x assume "doc_target v = Some x \<and> x \<notin> set (doc_targets later)"
    then have t: "doc_target v = Some x" and x: "x \<notin> set (doc_targets later)" by simp_all
    from heap_later [OF x] heap1 t show "heap' x = (if d2 = [] then None else Some d2)" by simp
  qed
  have after: "attributes_loop n b (earlier @ [(a, v)]) heap c3
      = Some (Inr ((case doc_target v of
                      None \<Rightarrow> heap_then
                    | Some x \<Rightarrow> heap_then(x := (if d2 = [] then None else Some d2))),
                   c1))"
    using run_earlier pr heap1 by (simp add: attributes_loop_append)
  from run_earlier heap_earlier doc docs m ma ra after final show ?thesis
    by (intro exI [of _ heap_then] exI [of _ c_then] exI [of _ doc] exI [of _ d1]
        exI [of _ d2] exI [of _ m] exI [of _ c1] conjI)
qed


subsection \<open>The created class\<close>

lemma class_doc_loop_PStr:
  assumes "class_doc_loop lc n b c = Some (Inr c')"
  shows "\<exists>d. map_of c ''__doc__'' = Some (PStr d)"
proof (rule ccontr)
  assume "\<not> (\<exists>d. map_of c ''__doc__'' = Some (PStr d))"
  then have "class_doc_loop lc n b c = Some (Inl (TypeError ''expected string or bytes-like object''))"
    by (subst class_doc_loop.simps) (auto split: option.splits pyval.splits)
  with assms show False by simp
qed

lemma class_doc_stage_PStr:
  assumes "class_doc_stage n b c = Some (Inr c2)" "has_own_doc c"
  shows "\<exists>d. map_of c ''__doc__'' = Some (PStr d)"
proof -
  from assms obtain c1 where "class_doc_loop True n b c = Some (Inr c1)"
    by (auto simp: class_doc_stage_def substitute_class_doc_def split: option.splits sum.splits)
  then show ?thesis by (rule class_doc_loop_PStr)
qed

lemma inherited_attr_doc_first:
  assumes "inherited_attr_doc cs attr = Inr doc"
  shows "doc = (case List.map_filter (\<lambda>c. meta_doc_for c attr) cs of [] \<Rightarrow> [] | e # es \<Rightarrow> e)"
  using assms
proof (induction cs)
  case Nil
  then show ?case by (simp add: List.map_filter_simps)
next
  case (Cons c cs)
  show ?case
  proof (cases "meta_doc_for c attr")
    case None
    with Cons.prems have "inherited_attr_doc cs attr = Inr doc"
      by (auto simp: meta_doc_for_def split: option.splits pyval.splits if_splits)
    from Cons.IH [OF this] None show ?thesis by (simp add: List.map_filter_simps)
  next
    case (Some e)
    with Cons.prems have "doc = e"
      by (auto simp: meta_doc_for_def split: option.splits pyval.splits if_splits)
    with Some show ?thesis by (simp add: List.map_filter_simps)
  qed
qed

lemma inherit_attr_doc_first:
  "inherit_attr_doc bases attr = Inr doc \<Longrightarrow>
     doc = (case attr_doc_entries bases attr of [] \<Rightarrow> [] | e # es \<Rightarrow> e)"
  unfolding inherit_attr_doc_def attr_doc_entries_def by (rule inherited_attr_doc_first)

lemma attribute_doc_rule:
  assumes "attribute_doc bases attr own = Inr doc"
  shows "(own = None \<or> own = Some [] \<longrightarrow>
           doc = (case attr_doc_entries bases attr of [] \<Rightarrow> [] | e # es \<Rightarrow> e))
    \<and> (\<forall>d. own = Some d \<and> d \<noteq> [] \<longrightarrow> doc = d)"
  using assms inherit_attr_doc_first [of bases attr doc]
  by (auto simp: attribute_doc_def split: option.splits if_splits)

lemma attr_docs_no_placeholder:
  "\<not> has_placeholder doc \<Longrightarrow> attr_docs n b c attr doc = Some (Inr (doc, doc))"
  by (simp add: attr_docs_def substitute_no_placeholder)

lemma new_stages:
  assumes "DocStringInheritor_new n b c heap = Some (Inr (heap', r))"
  obtains c0 c2 c3 where "inherit_class_doc b c = Inr c0"
    and "class_doc_stage n b c0 = Some (Inr c2)"
    and "c3 = dict_set ''META_DOC_FOR_ATTRIBUTES'' (PDict []) c2"
    and "attributes_start n b c = Some (Inr c3)"
    and "attributes_loop n b c3 heap c3 = Some (Inr (heap', r))"
proof -
  from assms obtain c0 where c0: "inherit_class_doc b c = Inr c0"
    by (auto simp: DocStringInheritor_new_def split: sum.splits)
  with assms obtain c2 where c2: "class_doc_stage n b c0 = Some (Inr c2)"
    by (auto simp: DocStringInheritor_new_def split: sum.splits option.splits)
  show ?thesis
  proof (rule that [OF c0 c2 refl])
    show "attributes_start n b c = Some (Inr (dict_set ''META_DOC_FOR_ATTRIBUTES'' (PDict []) c2))"
      using c0 c2 by (simp add: attributes_start_def)
    show "attributes_loop n b (dict_set ''META_DOC_FOR_ATTRIBUTES'' (PDict []) c2) heap
        (dict_set ''META_DOC_FOR_ATTRIBUTES'' (PDict []) c2) = Some (Inr (heap', r))"
      using assms c0 c2 by (simp add: DocStringInheritor_new_def Let_def)
  qed
qed

lemma attributes_start_frame:
  assumes st: "attributes_start n b c = Some (Inr c3)" and dist: "distinct (map fst c)"
  shows "distinct (map fst c3)"
    and "map_of c3 ''META_DOC_FOR_ATTRIBUTES'' = Some (PDict [])"
    and "\<And>k. k \<noteq> ''__doc__'' \<Longrightarrow> k \<noteq> ''META_DOC'' \<Longrightarrow> k \<noteq> ''META_DOC_FOR_ATTRIBUTES'' \<Longrightarrow>
           map_of c3 k = map_of c k"
    and "other_entries c3 = other_entries c"
proof -
  from st obtain c0 c2 where c0: "inherit_class_doc b c = Inr c0"
    and c2: "class_doc_stage n b c0 = Some (Inr c2)"
    and c3: "c3 = dict_set ''META_DOC_FOR_ATTRIBUTES'' (PDict []) c2"
    by (auto simp: attributes_start_def split: sum.splits option.splits)
  note start = inherit_class_doc_start [OF c0]
  have d0: "distinct (map fst c0)"
    unfolding start using dist by (auto simp: distinct_dict_set split: option.splits)
  have f0: "map_of c0 k = map_of c k" if "k \<noteq> ''__doc__''" for k
    unfolding start using that by (auto simp: map_of_dict_set split: option.splits)
  have o0: "other_entries c0 = other_entries c"
    unfolding start
    by (auto simp: other_entries_dict_set is_written_name_def split: option.splits)
  note fr = class_doc_stage_frame [OF c2]
  have "distinct (map fst (save_meta_doc c0))"
    unfolding save_meta_doc_def using d0 by (rule distinct_dict_set)
  with fr(1) have d2: "distinct (map fst c2)" by simp
  show "distinct (map fst c3)" unfolding c3 using d2 by (rule distinct_dict_set)
  show "map_of c3 ''META_DOC_FOR_ATTRIBUTES'' = Some (PDict [])"
    by (simp add: c3 map_of_dict_set)
  show "map_of c3 k = map_of c k"
    if "k \<noteq> ''__doc__''" "k \<noteq> ''META_DOC''" "k \<noteq> ''META_DOC_FOR_ATTRIBUTES''" for k
    using that fr(2) [of k] f0 [of k] by (simp add: c3 map_of_dict_set)
  show "other_entries c3 = other_entries c"
    using class_doc_stage_other_entries [OF c2] o0
    by (simp add: c3 other_entries_dict_set is_written_name_def)
qed

text \<open>The loop over the attributes leaves every entry that is no property.\<close>

lemma new_keeps_entry:
  assumes st: "attributes_start n b c = Some (Inr c3)"
    and loop: "attributes_loop n b c3 heap c3 = Some (Inr (heap', r))"
    and dist: "distinct (map fst c)"
    and k: "k \<noteq> ''META_DOC_FOR_ATTRIBUTES''"
    and nm: "\<forall>v. map_of c3 k = Some v \<longrightarrow> \<not> is_property v"
  shows "map_of r k = map_of c3 k"
proof -
  note fr = attributes_start_frame [OF st dist]
  have ent: "\<forall>a v. (a, v) \<in> set c3 \<longrightarrow> is_property v \<longrightarrow> map_of c3 a = Some v"
    using fr(1) by (simp add: map_of_distinct_mem)
  have "\<forall>v. (k, v) \<in> set c3 \<longrightarrow> \<not> is_property v"
    using nm fr(1) by (simp add: map_of_distinct_mem)
  with attributes_loop_frame [OF loop fr(1) fr(2) ent] k show ?thesis by blast
qed

lemma new_class_doc:
  assumes created: "DocStringInheritor_new n b c heap = Some (Inr (heap', r))"
    and dist: "distinct (map fst c)"
    and start: "start_doc b c = Some v" and tr: "truthy v"
  shows "\<exists>d c2. v = PStr d
      \<and> class_doc_stage n b (dict_set ''__doc__'' (PStr d) c) = Some (Inr c2)
      \<and> map_of r ''__doc__'' = map_of c2 ''__doc__''
      \<and> map_of r ''META_DOC'' = map_of c2 ''META_DOC''
      \<and> (\<exists>d1 d2. map_of r ''META_DOC'' = Some (PStr d1) \<and> map_of r ''__doc__'' = Some (PStr d2))
      \<and> (\<not> has_placeholder d \<longrightarrow>
            map_of r ''__doc__'' = Some (PStr d) \<and> map_of r ''META_DOC'' = Some (PStr d))"
proof -
  from created obtain c0 c2 c3 where c0: "inherit_class_doc b c = Inr c0"
    and c2: "class_doc_stage n b c0 = Some (Inr c2)"
    and c3: "c3 = dict_set ''META_DOC_FOR_ATTRIBUTES'' (PDict []) c2"
    and st: "attributes_start n b c = Some (Inr c3)"
    and loop: "attributes_loop n b c3 heap c3 = Some (Inr (heap', r))"
    by (rule new_stages)
  from inherit_class_doc_start [OF c0] start tr have c0': "c0 = dict_set ''__doc__'' v c" by simp
  then have own: "has_own_doc c0" using tr by (simp add: has_own_doc_def map_of_dict_set)
  from class_doc_stage_PStr [OF c2 own] c0' obtain d where v: "v = PStr d"
    by (auto simp: map_of_dict_set)
  from tr v have ne: "d \<noteq> []" by simp
  from class_doc_stage_frame(3) [OF c2 own] obtain d1 d2 where
    m2: "map_of c2 ''META_DOC'' = Some (PStr d1)" and dd2: "map_of c2 ''__doc__'' = Some (PStr d2)"
    by blast
  have m3: "map_of c3 ''META_DOC'' = Some (PStr d1)" and dd3: "map_of c3 ''__doc__'' = Some (PStr d2)"
    using m2 dd2 by (simp_all add: c3 map_of_dict_set)
  have rm: "map_of r ''META_DOC'' = map_of c3 ''META_DOC''"
    by (rule new_keeps_entry [OF st loop dist]) (simp_all add: m3)
  have rd: "map_of r ''__doc__'' = map_of c3 ''__doc__''"
    by (rule new_keeps_entry [OF st loop dist]) (simp_all add: dd3)
  have nb: "map_of r ''__doc__'' = Some (PStr d) \<and> map_of r ''META_DOC'' = Some (PStr d)"
    if "\<not> has_placeholder d"
  proof -
    have "map_of c0 ''__doc__'' = Some (PStr d)" by (simp add: c0' v map_of_dict_set)
    from class_doc_stage_no_placeholder [OF this ne that, of n b] c2 have "c2 = save_meta_doc c0"
      by simp
    then have "map_of c2 ''__doc__'' = Some (PStr d)" "map_of c2 ''META_DOC'' = Some (PStr d)"
      by (simp_all add: save_meta_doc_def c0' v map_of_dict_set)
    with rm rd m3 dd3 m2 dd2 show ?thesis by simp
  qed
  from c2 have "class_doc_stage n b (dict_set ''__doc__'' (PStr d) c) = Some (Inr c2)"
    by (simp add: c0' v)
  moreover have "map_of r ''__doc__'' = map_of c2 ''__doc__''" using rd dd3 dd2 by simp
  moreover have "map_of r ''META_DOC'' = map_of c2 ''META_DOC''" using rm m3 m2 by simp
  moreover have "\<exists>d1 d2. map_of r ''META_DOC'' = Some (PStr d1) \<and> map_of r ''__doc__'' = Some (PStr d2)"
    using rm rd m3 dd3 by simp
  ultimately show ?thesis using v nb by blast
qed

lemma new_no_class_doc:
  assumes created: "DocStringInheritor_new n b c heap = Some (Inr (heap', r))"
    and dist: "distinct (map fst c)"
    and start: "\<forall>v. start_doc b c = Some v \<longrightarrow> \<not> truthy v"
  shows "map_of r ''__doc__'' = map_of c ''__doc__''"
proof -
  from created obtain c0 c2 c3 where c0: "inherit_class_doc b c = Inr c0"
    and c2: "class_doc_stage n b c0 = Some (Inr c2)"
    and c3: "c3 = dict_set ''META_DOC_FOR_ATTRIBUTES'' (PDict []) c2"
    and st: "attributes_start n b c = Some (Inr c3)"
    and loop: "attributes_loop n b c3 heap c3 = Some (Inr (heap', r))"
    by (rule new_stages)
  from inherit_class_doc_start [OF c0] start have c0': "c0 = c" by (auto split: option.splits)
  have own: "\<not> has_own_doc c"
  proof
    assume "has_own_doc c"
    then obtain v where "start_doc b c = Some v" "truthy v" using has_own_doc_start by blast
    with start show False by simp
  qed
  from class_doc_stage_frame(4) [OF c2] own c0' have "map_of c2 ''__doc__'' = map_of c ''__doc__''"
    by simp
  then have d3: "map_of c3 ''__doc__'' = map_of c ''__doc__''" by (simp add: c3 map_of_dict_set)
  have falsy: "\<not> is_property v" if "\<not> truthy v" for v
    using that by (cases v) simp_all
  have "map_of r ''__doc__'' = map_of c3 ''__doc__''"
  proof (rule new_keeps_entry [OF st loop dist])
    show "''__doc__'' \<noteq> ''META_DOC_FOR_ATTRIBUTES''" by simp
    show "\<forall>v. map_of c3 ''__doc__'' = Some v \<longrightarrow> \<not> is_property v"
      using own d3 by (auto simp: has_own_doc_def dest: falsy)
  qed
  with d3 show ?thesis by simp
qed

lemma new_as_if_own_doc:
  assumes created: "DocStringInheritor_new n b c heap = Some (Inr (heap', r))"
    and own: "\<not> has_own_doc c"
    and start: "start_doc b c = Some v" and tr: "truthy v"
  shows "DocStringInheritor_new n b (dict_set ''__doc__'' v c) heap = Some (Inr (heap', r))"
proof -
  from created obtain c0 where c0: "inherit_class_doc b c = Inr c0"
    by (auto simp: DocStringInheritor_new_def split: sum.splits)
  from inherit_class_doc_start [OF c0] start tr have c0': "c0 = dict_set ''__doc__'' v c" by simp
  have "has_own_doc (dict_set ''__doc__'' v c)" using tr by (simp add: has_own_doc_def map_of_dict_set)
  then have "inherit_class_doc b (dict_set ''__doc__'' v c) = Inr (dict_set ''__doc__'' v c)"
    by (simp add: inherit_class_doc_def)
  with created c0 c0' show ?thesis by (simp add: DocStringInheritor_new_def)
qed

lemma new_attributes:
  assumes created: "DocStringInheritor_new n b c heap = Some (Inr (heap', r))"
    and dist: "distinct (map fst c)"
  shows "\<exists>c3. attributes_start n b c = Some (Inr c3)
      \<and> other_entries c3 = other_entries c
      \<and> distinct (map fst c3)
      \<and> map_of c3 ''META_DOC_FOR_ATTRIBUTES'' = Some (PDict [])
      \<and> attributes_loop n b c3 heap c3 = Some (Inr (heap', r))
      \<and> (\<forall>x. x \<notin> set (doc_targets c3) \<longrightarrow> heap' x = heap x)"
proof -
  from created obtain c0 c2 c3 where
    st: "attributes_start n b c = Some (Inr c3)"
    and loop: "attributes_loop n b c3 heap c3 = Some (Inr (heap', r))"
    by (rule new_stages)
  note fr = attributes_start_frame [OF st dist]
  have ent: "\<forall>a v. (a, v) \<in> set c3 \<longrightarrow> is_property v \<longrightarrow> map_of c3 a = Some v"
    using fr(1) by (simp add: map_of_distinct_mem)
  from attributes_loop_frame [OF loop fr(1) fr(2) ent]
  have "\<forall>x. x \<notin> set (doc_targets c3) \<longrightarrow> heap' x = heap x" by (elim conjE)
  with st fr(4) fr(1) fr(2) loop show ?thesis by (intro exI [of _ c3] conjI)
qed


subsection \<open>The example classes\<close>

lemma re_sub_Cons:
  "re_sub lc repl (c # cs) =
     (case re_sub_items lc repl (c # cs) of Inl e \<Rightarrow> Inl e | Inr items \<Rightarrow> join_items items)"
  by (simp add: re_sub_def)

lemma re_sub_Nil: "re_sub lc repl [] = Inr []"
  by (simp add: re_sub_def)

lemma body_store_at:
  "body_store 10 = None" "body_store 11 = Some ''Get {_KIND}.''"
  "body_store 12 = Some ''Doc of f.''" "body_store 13 = None" "body_store 14 = None"
  "body_store 15 = Some ''Doc f.''" "body_store 16 = Some ''Doc g.''" "body_store 17 = None"
  by (simp_all add: body_store_def)

lemma bases_store_at:
  "bases_store 10 = None" "bases_store 11 = Some ''Get p.''"
  "bases_store 12 = Some ''Doc of f.''" "bases_store 13 = None" "bases_store 14 = None"
  "bases_store 15 = Some ''Doc f.''" "bases_store 16 = Some ''Doc g.''" "bases_store 17 = None"
  by (simp_all add: bases_store_def body_store_def)

lemmas new_eval =
  DocStringInheritor_new_def inherit_class_doc_def has_own_doc_def
  class_doc_stage_def substitute_class_doc_def class_doc_loop.simps save_meta_doc_def
  process_attribute_def attribute_doc_def inherit_attr_doc_def bases_mro_def mro_def
  class_hasattr_def class_getattr_def meta_doc_set_def set_doc_def
  substitute.simps re_sub_Cons re_sub_Nil re_sub_str_doc re_sub_dict_doc
  str_doc_nonempty dict_doc_nonempty
  replace_for_clsdict_def replace_for_def replace_in_def find_attr_def find_base_def
  match_placeholder_def match_name_def is_word_char_def is_name_char_def is_capital_def

lemma P1_created:
  "DocStringInheritor_new ''P1'' [] P1_body body_store = Some (Inr (bases_store, P1_namespace))"
  by (simp add: new_eval P1_body_def P1_namespace_def body_store_at bases_store_def)

lemma P2_created:
  "DocStringInheritor_new ''P2'' [] P2_body bases_store = Some (Inr (bases_store, P2_namespace))"
  by (simp add: new_eval P2_body_def P2_namespace_def bases_store_at)

lemma Reader_created:
  "DocStringInheritor_new ''Reader'' [] Reader_body bases_store
     = Some (Inr (bases_store, Reader_namespace))"
  by (simp add: new_eval Reader_body_def Reader_namespace_def bases_store_at)

lemma C_created:
  "DocStringInheritor_new ''C'' [P1, P2] C_body bases_store
     = Some (Inr (bases_store(14 := Some ''Get c.''), C_namespace))"
  by (simp add: new_eval C_body_def C_namespace_def P1_def P2_def P1_namespace_def
      P2_namespace_def object_type_def bases_store_at)

lemma Alias_created:
  "DocStringInheritor_new ''Alias'' [Reader] Alias_body bases_store
     = Some (Inr (bases_store(17 := Some ''Doc f.''), Alias_namespace))"
  by (simp add: new_eval Alias_body_def Alias_namespace_def Reader_def Reader_namespace_def
      object_type_def bases_store_at)

lemma C_start_doc: "start_doc [P1, P2] C_body = Some (PStr ''Loader for {_KIND}.'')"
  by (simp add: start_doc_def has_own_doc_def has_meta_doc_def class_getattr_def bases_mro_def
      mro_def C_body_def P1_def P1_namespace_def)

lemma C_first_meta_doc:
  "find has_meta_doc (bases_mro [P1, P2]) = Some P1
   \<and> class_getattr P1 ''META_DOC'' = Inr (PStr ''Loader for {_KIND}.'')"
  by (simp add: has_meta_doc_def class_getattr_def bases_mro_def mro_def P1_def P1_namespace_def)

lemma C_attr_doc_entries:
  "attr_doc_entries [P1, P2] ''f'' = [[], ''Doc of f.'']
   \<and> attr_doc_entries [P1, P2] ''g'' = [''Get {_KIND}.'']"
  by (simp add: attr_doc_entries_def meta_doc_for_def class_hasattr_def bases_mro_def mro_def
      List.map_filter_simps P1_def P2_def P1_namespace_def P2_namespace_def object_type_def)

lemma C_first_nonempty_f:
  "find (has_nonempty_attr_doc ''f'') (bases_mro [P1, P2]) = Some P2
   \<and> meta_doc_for P2 ''f'' = Some ''Doc of f.''"
  by (simp add: has_nonempty_attr_doc_def meta_doc_for_def bases_mro_def mro_def
      P1_def P2_def P1_namespace_def P2_namespace_def object_type_def)

lemma Alias_start:
  "attributes_start ''Alias'' [Reader] Alias_body
     = Some (Inr ([(''f'', PFunction 17), (''g'', PFunction 17)]
          @ (''__doc__'', PStr ''Base.'')
          # [(''META_DOC'', PStr ''Base.''), (''META_DOC_FOR_ATTRIBUTES'', PDict [])]))"
  by (simp add: attributes_start_def new_eval Alias_body_def Reader_def Reader_namespace_def
      object_type_def)

lemma Alias_attr_doc_entries:
  "attr_doc_entries [Reader] ''f'' = [''Doc f.''] \<and> attr_doc_entries [Reader] ''g'' = [''Doc g.'']"
  by (simp add: attr_doc_entries_def meta_doc_for_def class_hasattr_def bases_mro_def mro_def
      List.map_filter_simps Reader_def Reader_namespace_def object_type_def)

subsection \<open>Docstring inheritance\<close>

text \<open>
  Claim C3, as the code has it. Let a class be created by the metaclass from a namespace
  with distinct keys, in the store \<open>heap\<close>, with the store \<open>heap'\<close> and the namespace
  \<open>result\<close> as the outcome.

  The class docstring. The docstring that the class starts from is its own when that is
  non-empty, and otherwise the \<^verbatim>\<open>META_DOC\<close> of the first class, over the declared bases and
  the method resolution order of each, whose \<^verbatim>\<open>META_DOC\<close> is non-empty (\<open>start_doc\<close>).
  With such a docstring, it is a string; \<^verbatim>\<open>__doc__\<close> and \<^verbatim>\<open>META_DOC\<close> of the class are
  what the substitution of the placeholders makes of it (the docstring itself when it holds
  no placeholder), and a class without a docstring of its own is the class it would be with
  that \<^verbatim>\<open>META_DOC\<close> written as its docstring. Without such a docstring, \<^verbatim>\<open>__doc__\<close> stays
  as it was.

  The attributes. The loop runs over the namespace \<open>c3\<close>, whose entries under the names
  other than \<^verbatim>\<open>__doc__\<close>, \<^verbatim>\<open>META_DOC\<close> and \<^verbatim>\<open>META_DOC_FOR_ATTRIBUTES\<close> are those of the
  class body, in their order; the docstring of an object that is no method of \<open>c3\<close> stays
  as it was. Let a method or property come in its turn, after the items \<open>earlier\<close> and
  before the items \<open>later\<close>, and let \<open>heap_then\<close> be the store then: it differs from
  \<open>heap\<close> only in the docstrings of the objects of \<open>earlier\<close>, so an object that is bound
  to no earlier name has the docstring it was made with, and an object that is bound to
  an earlier name too has the docstring that the turn of that name gave it. The attribute
  starts from the docstring it has then when that is non-empty, and otherwise from the
  entry of the first class, in the same order and among the classes that have the
  attribute, whose \<^verbatim>\<open>META_DOC_FOR_ATTRIBUTES\<close> has an entry for the attribute, be it
  empty, or from the empty docstring when there is none. Its entry in
  \<^verbatim>\<open>META_DOC_FOR_ATTRIBUTES\<close> and its docstring are the two substitutions of that (the
  docstring itself when it holds no placeholder): a property with another docstring is
  replaced by a new property, and the docstring of the object of a method is assigned:
  the store after the turn is \<open>heap_then\<close> with that docstring for the object, and it is
  still the docstring of the object at the end when the object is bound to no later name.
\<close>

theorem docstring_inheritance:
  assumes created: "DocStringInheritor_new name' bases clsdict heap = Some (Inr (heap', result))"
    and keys: "distinct (map fst clsdict)"
  shows "(\<forall>v. start_doc bases clsdict = Some v \<and> truthy v \<longrightarrow>
        (\<exists>d c2. v = PStr d
           \<and> class_doc_stage name' bases (dict_set ''__doc__'' (PStr d) clsdict) = Some (Inr c2)
           \<and> map_of result ''__doc__'' = map_of c2 ''__doc__''
           \<and> map_of result ''META_DOC'' = map_of c2 ''META_DOC''
           \<and> (\<not> has_placeholder d \<longrightarrow>
                 map_of result ''__doc__'' = Some (PStr d)
                 \<and> map_of result ''META_DOC'' = Some (PStr d)))
        \<and> (\<not> has_own_doc clsdict \<longrightarrow>
             DocStringInheritor_new name' bases (dict_set ''__doc__'' v clsdict) heap
               = Some (Inr (heap', result))))
    \<and> ((\<forall>v. start_doc bases clsdict = Some v \<longrightarrow> \<not> truthy v) \<longrightarrow>
          map_of result ''__doc__'' = map_of clsdict ''__doc__'')
    \<and> (\<exists>c3. attributes_start name' bases clsdict = Some (Inr c3)
          \<and> other_entries c3 = other_entries clsdict
          \<and> (\<forall>x. x \<notin> set (doc_targets c3) \<longrightarrow> heap' x = heap x)
          \<and> (\<forall>earlier attr attribute later.
                c3 = earlier @ (attr, attribute) # later \<and> is_method_or_property attribute \<longrightarrow>
                (\<exists>heap_then c_then doc d1 d2 m c_after.
                   attributes_loop name' bases earlier heap c3 = Some (Inr (heap_then, c_then))
                   \<and> (\<forall>x. x \<notin> set (doc_targets earlier) \<longrightarrow> heap_then x = heap x)
                   \<and> attribute_doc bases attr (own_doc heap_then attribute) = Inr doc
                   \<and> (own_doc heap_then attribute = None \<or> own_doc heap_then attribute = Some []
                        \<longrightarrow> doc = (case attr_doc_entries bases attr of [] \<Rightarrow> [] | e # es \<Rightarrow> e))
                   \<and> (\<forall>d. own_doc heap_then attribute = Some d \<and> d \<noteq> [] \<longrightarrow> doc = d)
                   \<and> attr_docs name' bases c3 attr doc = Some (Inr (d1, d2))
                   \<and> (\<not> has_placeholder doc \<longrightarrow> d1 = doc \<and> d2 = doc)
                   \<and> map_of result ''META_DOC_FOR_ATTRIBUTES'' = Some (PDict m)
                   \<and> map_of m attr = Some d1
                   \<and> map_of result attr
                       = Some (entry_after heap_then attribute (if d2 = [] then None else Some d2))
                   \<and> attributes_loop name' bases (earlier @ [(attr, attribute)]) heap c3
                       = Some (Inr ((case doc_target attribute of
                                       None \<Rightarrow> heap_then
                                     | Some x \<Rightarrow> heap_then(x := (if d2 = [] then None else Some d2))),
                                    c_after))
                   \<and> (\<forall>x. doc_target attribute = Some x \<and> x \<notin> set (doc_targets later) \<longrightarrow>
                         heap' x = (if d2 = [] then None else Some d2)))))"
proof (intro conjI allI impI)
  fix v assume "start_doc bases clsdict = Some v \<and> truthy v"
  then have start: "start_doc bases clsdict = Some v" and tr: "truthy v" by simp_all
  from new_class_doc [OF created keys start tr]
  show "\<exists>d c2. v = PStr d
           \<and> class_doc_stage name' bases (dict_set ''__doc__'' (PStr d) clsdict) = Some (Inr c2)
           \<and> map_of result ''__doc__'' = map_of c2 ''__doc__''
           \<and> map_of result ''META_DOC'' = map_of c2 ''META_DOC''
           \<and> (\<not> has_placeholder d \<longrightarrow>
                 map_of result ''__doc__'' = Some (PStr d)
                 \<and> map_of result ''META_DOC'' = Some (PStr d))"
    by blast
  show "DocStringInheritor_new name' bases (dict_set ''__doc__'' v clsdict) heap
      = Some (Inr (heap', result))"
    if "\<not> has_own_doc clsdict"
    using created that start tr by (rule new_as_if_own_doc)
next
  assume "\<forall>v. start_doc bases clsdict = Some v \<longrightarrow> \<not> truthy v"
  with created keys show "map_of result ''__doc__'' = map_of clsdict ''__doc__''"
    by (rule new_no_class_doc)
next
  from new_attributes [OF created keys] obtain c3 where
    st: "attributes_start name' bases clsdict = Some (Inr c3)"
    and others: "other_entries c3 = other_entries clsdict"
    and dist: "distinct (map fst c3)"
    and md: "map_of c3 ''META_DOC_FOR_ATTRIBUTES'' = Some (PDict [])"
    and loop: "attributes_loop name' bases c3 heap c3 = Some (Inr (heap', result))"
    and frame: "\<forall>x. x \<notin> set (doc_targets c3) \<longrightarrow> heap' x = heap x"
    by (elim exE conjE)
  have turn: "\<exists>heap_then c_then doc d1 d2 m c_after.
        attributes_loop name' bases earlier heap c3 = Some (Inr (heap_then, c_then))
        \<and> (\<forall>x. x \<notin> set (doc_targets earlier) \<longrightarrow> heap_then x = heap x)
        \<and> attribute_doc bases attr (own_doc heap_then attribute) = Inr doc
        \<and> (own_doc heap_then attribute = None \<or> own_doc heap_then attribute = Some []
             \<longrightarrow> doc = (case attr_doc_entries bases attr of [] \<Rightarrow> [] | e # es \<Rightarrow> e))
        \<and> (\<forall>d. own_doc heap_then attribute = Some d \<and> d \<noteq> [] \<longrightarrow> doc = d)
        \<and> attr_docs name' bases c3 attr doc = Some (Inr (d1, d2))
        \<and> (\<not> has_placeholder doc \<longrightarrow> d1 = doc \<and> d2 = doc)
        \<and> map_of result ''META_DOC_FOR_ATTRIBUTES'' = Some (PDict m)
        \<and> map_of m attr = Some d1
        \<and> map_of result attr
            = Some (entry_after heap_then attribute (if d2 = [] then None else Some d2))
        \<and> attributes_loop name' bases (earlier @ [(attr, attribute)]) heap c3
            = Some (Inr ((case doc_target attribute of
                            None \<Rightarrow> heap_then
                          | Some x \<Rightarrow> heap_then(x := (if d2 = [] then None else Some d2))),
                         c_after))
        \<and> (\<forall>x. doc_target attribute = Some x \<and> x \<notin> set (doc_targets later) \<longrightarrow>
              heap' x = (if d2 = [] then None else Some d2))"
    if h: "c3 = earlier @ (attr, attribute) # later \<and> is_method_or_property attribute"
    for earlier attr attribute later
  proof -
    from h have split: "c3 = earlier @ (attr, attribute) # later"
      and meth: "is_method_or_property attribute" by simp_all
    from attributes_loop_turn [OF loop dist md split meth] obtain heap_then c_then doc d1 d2 m c_after
      where t: "attributes_loop name' bases earlier heap c3 = Some (Inr (heap_then, c_then))
        \<and> (\<forall>x. x \<notin> set (doc_targets earlier) \<longrightarrow> heap_then x = heap x)
        \<and> attribute_doc bases attr (own_doc heap_then attribute) = Inr doc
        \<and> attr_docs name' bases c3 attr doc = Some (Inr (d1, d2))
        \<and> map_of result ''META_DOC_FOR_ATTRIBUTES'' = Some (PDict m)
        \<and> map_of m attr = Some d1
        \<and> map_of result attr
            = Some (entry_after heap_then attribute (if d2 = [] then None else Some d2))
        \<and> attributes_loop name' bases (earlier @ [(attr, attribute)]) heap c3
            = Some (Inr ((case doc_target attribute of
                            None \<Rightarrow> heap_then
                          | Some x \<Rightarrow> heap_then(x := (if d2 = [] then None else Some d2))),
                         c_after))
        \<and> (\<forall>x. doc_target attribute = Some x \<and> x \<notin> set (doc_targets later) \<longrightarrow>
              heap' x = (if d2 = [] then None else Some d2))"
      by (elim exE) (rule that)
    from t have doc: "attribute_doc bases attr (own_doc heap_then attribute) = Inr doc"
      and docs: "attr_docs name' bases c3 attr doc = Some (Inr (d1, d2))"
      by simp_all
    note rule = attribute_doc_rule [OF doc]
    have np: "d1 = doc \<and> d2 = doc" if "\<not> has_placeholder doc"
      using attr_docs_no_placeholder [OF that, of name' bases c3 attr] docs by simp
    from t rule np show ?thesis
      by (intro exI [of _ heap_then] exI [of _ c_then] exI [of _ doc] exI [of _ d1]
          exI [of _ d2] exI [of _ m] exI [of _ c_after]) simp
  qed
  have turns: "\<forall>earlier attr attribute later.
        c3 = earlier @ (attr, attribute) # later \<and> is_method_or_property attribute \<longrightarrow>
        (\<exists>heap_then c_then doc d1 d2 m c_after.
           attributes_loop name' bases earlier heap c3 = Some (Inr (heap_then, c_then))
           \<and> (\<forall>x. x \<notin> set (doc_targets earlier) \<longrightarrow> heap_then x = heap x)
           \<and> attribute_doc bases attr (own_doc heap_then attribute) = Inr doc
           \<and> (own_doc heap_then attribute = None \<or> own_doc heap_then attribute = Some []
                \<longrightarrow> doc = (case attr_doc_entries bases attr of [] \<Rightarrow> [] | e # es \<Rightarrow> e))
           \<and> (\<forall>d. own_doc heap_then attribute = Some d \<and> d \<noteq> [] \<longrightarrow> doc = d)
           \<and> attr_docs name' bases c3 attr doc = Some (Inr (d1, d2))
           \<and> (\<not> has_placeholder doc \<longrightarrow> d1 = doc \<and> d2 = doc)
           \<and> map_of result ''META_DOC_FOR_ATTRIBUTES'' = Some (PDict m)
           \<and> map_of m attr = Some d1
           \<and> map_of result attr
               = Some (entry_after heap_then attribute (if d2 = [] then None else Some d2))
           \<and> attributes_loop name' bases (earlier @ [(attr, attribute)]) heap c3
               = Some (Inr ((case doc_target attribute of
                               None \<Rightarrow> heap_then
                             | Some x \<Rightarrow> heap_then(x := (if d2 = [] then None else Some d2))),
                            c_after))
           \<and> (\<forall>x. doc_target attribute = Some x \<and> x \<notin> set (doc_targets later) \<longrightarrow>
                 heap' x = (if d2 = [] then None else Some d2)))"
    by (intro allI impI) (rule turn)
  from st others frame turns
  show "\<exists>c3. attributes_start name' bases clsdict = Some (Inr c3)
          \<and> other_entries c3 = other_entries clsdict
          \<and> (\<forall>x. x \<notin> set (doc_targets c3) \<longrightarrow> heap' x = heap x)
          \<and> (\<forall>earlier attr attribute later.
                c3 = earlier @ (attr, attribute) # later \<and> is_method_or_property attribute \<longrightarrow>
                (\<exists>heap_then c_then doc d1 d2 m c_after.
                   attributes_loop name' bases earlier heap c3 = Some (Inr (heap_then, c_then))
                   \<and> (\<forall>x. x \<notin> set (doc_targets earlier) \<longrightarrow> heap_then x = heap x)
                   \<and> attribute_doc bases attr (own_doc heap_then attribute) = Inr doc
                   \<and> (own_doc heap_then attribute = None \<or> own_doc heap_then attribute = Some []
                        \<longrightarrow> doc = (case attr_doc_entries bases attr of [] \<Rightarrow> [] | e # es \<Rightarrow> e))
                   \<and> (\<forall>d. own_doc heap_then attribute = Some d \<and> d \<noteq> [] \<longrightarrow> doc = d)
                   \<and> attr_docs name' bases c3 attr doc = Some (Inr (d1, d2))
                   \<and> (\<not> has_placeholder doc \<longrightarrow> d1 = doc \<and> d2 = doc)
                   \<and> map_of result ''META_DOC_FOR_ATTRIBUTES'' = Some (PDict m)
                   \<and> map_of m attr = Some d1
                   \<and> map_of result attr
                       = Some (entry_after heap_then attribute (if d2 = [] then None else Some d2))
                   \<and> attributes_loop name' bases (earlier @ [(attr, attribute)]) heap c3
                       = Some (Inr ((case doc_target attribute of
                                       None \<Rightarrow> heap_then
                                     | Some x \<Rightarrow> heap_then(x := (if d2 = [] then None else Some d2))),
                                    c_after))
                   \<and> (\<forall>x. doc_target attribute = Some x \<and> x \<notin> set (doc_targets later) \<longrightarrow>
                         heap' x = (if d2 = [] then None else Some d2))))"
    by (intro exI [of _ c3] conjI)
qed


theorem docstring_inheritance_witness:
  "DocStringInheritor_new ''C'' [P1, P2] C_body bases_store
     = Some (Inr (bases_store(14 := Some ''Get c.''), C_namespace))
   \<and> start_doc [P1, P2] C_body = Some (PStr ''Loader for {_KIND}.'')
   \<and> DocStringInheritor_new ''C'' [P1, P2]
        (dict_set ''__doc__'' (PStr ''Loader for {_KIND}.'') C_body) bases_store
       = Some (Inr (bases_store(14 := Some ''Get c.''), C_namespace))
   \<and> map_of C_namespace ''__doc__'' = Some (PStr ''Loader for c.'')
   \<and> map_of C_namespace ''META_DOC'' = Some (PStr ''Loader for {_KIND}.'')
   \<and> attr_doc_entries [P1, P2] ''g'' = [''Get {_KIND}.'']
   \<and> map_of C_namespace ''g'' = Some (PFunction 14)
   \<and> (bases_store(14 := Some ''Get c.'')) 14 = Some ''Get c.''
   \<and> DocStringInheritor_new ''Alias'' [Reader] Alias_body bases_store
       = Some (Inr (bases_store(17 := Some ''Doc f.''), Alias_namespace))
   \<and> map_of Alias_body ''f'' = Some (PFunction 17)
   \<and> map_of Alias_body ''g'' = Some (PFunction 17)
   \<and> bases_store 17 = None
   \<and> attr_doc_entries [Reader] ''g'' = [''Doc g.'']
   \<and> (\<exists>m. map_of Alias_namespace ''META_DOC_FOR_ATTRIBUTES'' = Some (PDict m)
         \<and> map_of m ''g'' = Some ''Doc f.'')
   \<and> (bases_store(17 := Some ''Doc f.'')) 17 = Some ''Doc f.''"
proof -
  have keys: "distinct (map fst C_body)" by (simp add: C_body_def)
  have own: "\<not> has_own_doc C_body" by (simp add: has_own_doc_def C_body_def)
  from docstring_inheritance [OF C_created keys, THEN conjunct1, rule_format,
      of "PStr ''Loader for {_KIND}.''"] C_start_doc own
  have as_if: "DocStringInheritor_new ''C'' [P1, P2]
        (dict_set ''__doc__'' (PStr ''Loader for {_KIND}.'') C_body) bases_store
      = Some (Inr (bases_store(14 := Some ''Get c.''), C_namespace))"
    by simp
  have keys': "distinct (map fst Alias_body)" by (simp add: Alias_body_def)
  let ?heap' = "bases_store(17 := Some ''Doc f.'')"
  let ?later = "[(''__doc__'', PStr ''Base.''), (''META_DOC'', PStr ''Base.''),
      (''META_DOC_FOR_ATTRIBUTES'', PDict [])]"
  let ?c3 = "[(''f'', PFunction 17)] @ (''g'', PFunction 17) # ?later"
  note attrs = docstring_inheritance [OF Alias_created keys', THEN conjunct2, THEN conjunct2]
  from attrs obtain c3 where st: "attributes_start ''Alias'' [Reader] Alias_body = Some (Inr c3)"
    and turns: "\<forall>earlier attr attribute later.
        c3 = earlier @ (attr, attribute) # later \<and> is_method_or_property attribute \<longrightarrow>
        (\<exists>heap_then c_then doc d1 d2 m c_after.
           attributes_loop ''Alias'' [Reader] earlier bases_store c3 = Some (Inr (heap_then, c_then))
           \<and> (\<forall>x. x \<notin> set (doc_targets earlier) \<longrightarrow> heap_then x = bases_store x)
           \<and> attribute_doc [Reader] attr (own_doc heap_then attribute) = Inr doc
           \<and> (own_doc heap_then attribute = None \<or> own_doc heap_then attribute = Some []
                \<longrightarrow> doc = (case attr_doc_entries [Reader] attr of [] \<Rightarrow> [] | e # es \<Rightarrow> e))
           \<and> (\<forall>d. own_doc heap_then attribute = Some d \<and> d \<noteq> [] \<longrightarrow> doc = d)
           \<and> attr_docs ''Alias'' [Reader] c3 attr doc = Some (Inr (d1, d2))
           \<and> (\<not> has_placeholder doc \<longrightarrow> d1 = doc \<and> d2 = doc)
           \<and> map_of Alias_namespace ''META_DOC_FOR_ATTRIBUTES'' = Some (PDict m)
           \<and> map_of m attr = Some d1
           \<and> map_of Alias_namespace attr
               = Some (entry_after heap_then attribute (if d2 = [] then None else Some d2))
           \<and> attributes_loop ''Alias'' [Reader] (earlier @ [(attr, attribute)]) bases_store c3
               = Some (Inr ((case doc_target attribute of
                               None \<Rightarrow> heap_then
                             | Some x \<Rightarrow> heap_then(x := (if d2 = [] then None else Some d2))),
                            c_after))
           \<and> (\<forall>x. doc_target attribute = Some x \<and> x \<notin> set (doc_targets later) \<longrightarrow>
                 ?heap' x = (if d2 = [] then None else Some d2)))"
    by (elim exE conjE) (rule that)
  from st have c3: "c3 = ?c3" by (simp add: Alias_start)
  have "c3 = [(''f'', PFunction 17)] @ (''g'', PFunction 17) # ?later
      \<and> is_method_or_property (PFunction 17)"
    by (simp add: c3 is_method_or_property_def)
  from turns [rule_format, OF this] obtain heap_then c_then doc d1 d2 m c_after where
    turn: "attributes_loop ''Alias'' [Reader] [(''f'', PFunction 17)] bases_store c3
             = Some (Inr (heap_then, c_then))
           \<and> (\<forall>x. x \<notin> set (doc_targets [(''f'', PFunction 17)]) \<longrightarrow> heap_then x = bases_store x)
           \<and> attribute_doc [Reader] ''g'' (own_doc heap_then (PFunction 17)) = Inr doc
           \<and> (own_doc heap_then (PFunction 17) = None \<or> own_doc heap_then (PFunction 17) = Some []
                \<longrightarrow> doc = (case attr_doc_entries [Reader] ''g'' of [] \<Rightarrow> [] | e # es \<Rightarrow> e))
           \<and> (\<forall>d. own_doc heap_then (PFunction 17) = Some d \<and> d \<noteq> [] \<longrightarrow> doc = d)
           \<and> attr_docs ''Alias'' [Reader] c3 ''g'' doc = Some (Inr (d1, d2))
           \<and> (\<not> has_placeholder doc \<longrightarrow> d1 = doc \<and> d2 = doc)
           \<and> map_of Alias_namespace ''META_DOC_FOR_ATTRIBUTES'' = Some (PDict m)
           \<and> map_of m ''g'' = Some d1
           \<and> map_of Alias_namespace ''g''
               = Some (entry_after heap_then (PFunction 17) (if d2 = [] then None else Some d2))
           \<and> attributes_loop ''Alias'' [Reader] ([(''f'', PFunction 17)] @ [(''g'', PFunction 17)]) bases_store c3
               = Some (Inr ((case doc_target (PFunction 17) of
                               None \<Rightarrow> heap_then
                             | Some x \<Rightarrow> heap_then(x := (if d2 = [] then None else Some d2))),
                            c_after))
           \<and> (\<forall>x. doc_target (PFunction 17) = Some x \<and> x \<notin> set (doc_targets ?later) \<longrightarrow>
                 ?heap' x = (if d2 = [] then None else Some d2))"
    by (elim exE) (rule that)
  from turn have run: "attributes_loop ''Alias'' [Reader] [(''f'', PFunction 17)] bases_store c3
             = Some (Inr (heap_then, c_then))"
    and own_rule: "\<forall>d. own_doc heap_then (PFunction 17) = Some d \<and> d \<noteq> [] \<longrightarrow> doc = d"
    and plain: "\<not> has_placeholder doc \<longrightarrow> d1 = doc \<and> d2 = doc"
    and m: "map_of Alias_namespace ''META_DOC_FOR_ATTRIBUTES'' = Some (PDict m)"
      "map_of m ''g'' = Some d1"
    by simp_all
  have "attributes_loop ''Alias'' [Reader] [(''f'', PFunction 17)] bases_store ?c3
      = Some (Inr (bases_store(17 := Some ''Doc f.''),
          [(''f'', PFunction 17), (''g'', PFunction 17), (''__doc__'', PStr ''Base.''),
           (''META_DOC'', PStr ''Base.''),
           (''META_DOC_FOR_ATTRIBUTES'', PDict [(''f'', ''Doc f.'')])]))"
    by (simp add: new_eval Reader_def Reader_namespace_def object_type_def bases_store_at)
  with run c3 have "heap_then = bases_store(17 := Some ''Doc f.'')" by simp
  with own_rule have "doc = ''Doc f.''" by simp
  moreover have "\<not> has_placeholder ''Doc f.''" by simp
  ultimately have "d1 = ''Doc f.''" using plain by simp
  with m have shared: "\<exists>m. map_of Alias_namespace ''META_DOC_FOR_ATTRIBUTES'' = Some (PDict m)
      \<and> map_of m ''g'' = Some ''Doc f.''"
    by blast
  from C_created C_start_doc as_if C_attr_doc_entries Alias_created Alias_attr_doc_entries shared
  show ?thesis
    by (simp add: C_namespace_def Alias_body_def bases_store_at)
qed

text \<open>
  The claim as stated fails on the class \<^verbatim>\<open>C\<close>. Its docstring is inherited from \<^verbatim>\<open>P1\<close>,
  the first class with a non-empty \<^verbatim>\<open>META_DOC\<close>, and it is not that \<^verbatim>\<open>META_DOC\<close> but
  its substitution. Its method \<^verbatim>\<open>f\<close> has no docstring, and the first class whose
  \<^verbatim>\<open>META_DOC_FOR_ATTRIBUTES\<close> has a non-empty entry for \<^verbatim>\<open>f\<close> is \<^verbatim>\<open>P2\<close>; but \<^verbatim>\<open>f\<close>
  takes the empty entry of \<^verbatim>\<open>P1\<close> and stays without a docstring.
\<close>

theorem docstring_inheritance_counterexample:
  "DocStringInheritor_new ''P1'' [] P1_body body_store = Some (Inr (bases_store, P1_namespace))
   \<and> DocStringInheritor_new ''P2'' [] P2_body bases_store = Some (Inr (bases_store, P2_namespace))
   \<and> DocStringInheritor_new ''C'' [P1, P2] C_body bases_store
       = Some (Inr (bases_store(14 := Some ''Get c.''), C_namespace))
   \<and> map_of C_body ''__doc__'' = None
   \<and> find has_meta_doc (bases_mro [P1, P2]) = Some P1
   \<and> class_getattr P1 ''META_DOC'' = Inr (PStr ''Loader for {_KIND}.'')
   \<and> map_of C_namespace ''__doc__'' = Some (PStr ''Loader for c.'')
   \<and> map_of C_body ''f'' = Some (PFunction 13)
   \<and> bases_store 13 = None
   \<and> find (has_nonempty_attr_doc ''f'') (bases_mro [P1, P2]) = Some P2
   \<and> meta_doc_for P2 ''f'' = Some ''Doc of f.''
   \<and> map_of C_namespace ''f'' = Some (PFunction 13)
   \<and> (bases_store(14 := Some ''Get c.'')) 13 = None"
  using P1_created P2_created C_created C_first_meta_doc C_first_nonempty_f
  by (simp add: C_body_def C_namespace_def bases_store_at)


end
